theory Spec2Isabelle
  imports Main "HOL-Library.Sublist" "HOL-Library.AList" "HOL-Library.Multiset"
begin

section \<open>Data model\<close>

text \<open>
  The three services (voters, polls, votes) keep JSON documents in one shared Redis
  instance.  A Go \<open>uint\<close> is a natural number here: the code never does arithmetic on an
  id, it only prints, compares and stores it.  A \<open>time.Time\<close> is an instant, an integer.
  A Go slice that is a struct field is a list; the difference between a nil and an empty
  slice is kept only where the code returns a slice (\<open>GetAll...\<close>), see below.
\<close>

type_synonym uint = nat
type_synonym Time = int

record voterPoll =
  PollID :: uint
  VoteDate :: Time

record Voter =
  VoterID :: uint
  FirstName :: string
  LastName :: string
  VoteHistory :: "voterPoll list"

record pollOption =
  PollOptionID :: uint
  PollOptionText :: string

record Poll =
  PollID :: uint
  PollTitle :: string
  PollQuestion :: string
  PollOptions :: "pollOption list"
  Links :: "string list"

record Vote =
  VoteID :: uint
  VoterID :: uint
  PollID :: uint
  VoteValue :: uint
  Links :: "string list"

text \<open>The zero values \<open>voterPoll{}\<close>, \<open>Voter{}\<close>, \<open>pollOption{}\<close>, \<open>Poll{}\<close>, \<open>Vote{}\<close>.\<close>

definition zero_voterPoll :: voterPoll where
  "zero_voterPoll = \<lparr>voterPoll.PollID = 0, VoteDate = 0\<rparr>"

definition zero_Voter :: Voter where
  "zero_Voter = \<lparr>Voter.VoterID = 0, FirstName = [], LastName = [], VoteHistory = []\<rparr>"

definition zero_pollOption :: pollOption where
  "zero_pollOption = \<lparr>PollOptionID = 0, PollOptionText = []\<rparr>"

definition zero_Poll :: Poll where
  "zero_Poll = \<lparr>Poll.PollID = 0, PollTitle = [], PollQuestion = [], PollOptions = [],
                 Poll.Links = []\<rparr>"

definition zero_Vote :: Vote where
  "zero_Vote = \<lparr>VoteID = 0, Vote.VoterID = 0, Vote.PollID = 0, VoteValue = 0, Vote.Links = []\<rparr>"

text \<open>
  An \<open>error\<close> is either made by \<open>errors.New\<close> in the services or comes back from Redis:
  \<open>redis.Nil\<close> for a missing key, or an error reply of the server.  A function returning
  \<open>error\<close> returns \<open>error option\<close>, \<open>None\<close> being Go's \<open>nil\<close>.  A run-time panic (an index
  out of range) is the outcome \<open>Panic\<close>.
\<close>

datatype error = errors_New string | redis_Nil | redis_ERR string

datatype 'a outcome = Panic | Return 'a

section \<open>Slices in memory\<close>

text \<open>
  A slice that a function returns is either nil or holds elements; \<open>append\<close> to a nil
  slice gives one that is not nil.
\<close>

datatype 'a slice_value = Nil_slice | Slice "'a list"

fun append_slice :: "'a slice_value \<Rightarrow> 'a \<Rightarrow> 'a slice_value" where
  "append_slice Nil_slice x = Slice [x]"
| "append_slice (Slice xs) x = Slice (xs @ [x])"

fun len_slice :: "'a slice_value \<Rightarrow> nat" where
  "len_slice Nil_slice = 0"
| "len_slice (Slice xs) = length xs"

fun map_slice :: "('a \<Rightarrow> 'b) \<Rightarrow> 'a slice_value \<Rightarrow> 'b slice_value" where
  "map_slice f Nil_slice = Nil_slice"
| "map_slice f (Slice xs) = Slice (map f xs)"

text \<open>
  In the loop of \<open>GetAllVoters\<close>, \<open>GetAllPolls\<close> and \<open>GetAllVotes\<close> one variable is decoded
  into again and again, and a copy of it is appended to the result each time.  There a
  slice field of the struct is a slice header: a backing array, a length and a capacity.
  The arrays live in a heap, a list of arrays addressed by their position.

  \<open>json.Unmarshal\<close> of a JSON array into a slice "resets the slice length to zero and then
  appends each element to the slice": element \<open>i\<close> is written into cell \<open>i\<close> of the backing
  array that the slice has, and a larger array is allocated (and the cells in use copied)
  only when the capacity is used up.  The new capacity is the one of encoding/json up to
  Go 1.20, half as much again and at least 4; the proofs below use only that it exceeds
  the old one.  An empty array makes the slice an empty one without cells.  A copy of the
  struct made earlier keeps its header, and so reads the cells of its array as they are
  at the end.
\<close>

record header =
  arr :: nat
  len :: nat
  cap :: nat

type_synonym 'a heap = "'a list list"

definition nil_header :: header where
  "nil_header = \<lparr>arr = 0, len = 0, cap = 0\<rparr>"

definition slice_elems :: "'a heap \<Rightarrow> header \<Rightarrow> 'a list" where
  "slice_elems h v = (if len v = 0 then [] else take (len v) (h ! arr v))"

definition grow_slice :: "'a \<Rightarrow> 'a heap \<Rightarrow> header \<Rightarrow> 'a heap \<times> header" where
  "grow_slice z h v =
     (let newcap = (if cap v + cap v div 2 < 4 then 4 else cap v + cap v div 2)
      in (h @ [slice_elems h v @ replicate (newcap - len v) z],
          \<lparr>arr = length h, len = len v, cap = newcap\<rparr>))"

fun decode_elems :: "'a \<Rightarrow> 'a heap \<Rightarrow> header \<Rightarrow> nat \<Rightarrow> 'a list \<Rightarrow> 'a heap \<times> header" where
  "decode_elems z h v i [] = (h, v)"
| "decode_elems z h v i (x # xs) =
     (let (h1, v1) = (if cap v \<le> i then grow_slice z h v else (h, v));
          v2 = (if len v1 \<le> i then v1\<lparr>len := i + 1\<rparr> else v1)
      in decode_elems z (h1[arr v2 := (h1 ! arr v2)[i := x]]) v2 (i + 1) xs)"

definition unmarshal_slice :: "'a \<Rightarrow> 'a heap \<Rightarrow> header \<Rightarrow> 'a list \<Rightarrow> 'a heap \<times> header" where
  "unmarshal_slice z h v xs =
     (if xs = [] then (h, nil_header)
      else (let (h', v') = decode_elems z h v 0 xs
            in (h', if length xs < len v' then v'\<lparr>len := length xs\<rparr> else v')))"

text \<open>
  The loop \<open>for _, key := range ks\<close> of the three \<open>GetAll\<close> functions: \<open>get\<close> decodes the
  document under the key into the variable \<open>m\<close> (in the heap \<open>h\<close>), an error ends the loop,
  and otherwise a copy of the variable is appended to the list.
\<close>

fun scan_keys :: "(string \<Rightarrow> 'h \<times> 'm \<Rightarrow> error + 'h \<times> 'm) \<Rightarrow> string list \<Rightarrow> 'h \<times> 'm \<Rightarrow>
    'm slice_value \<Rightarrow> error + 'h \<times> 'm slice_value" where
  "scan_keys get [] (h, m) list = Inr (h, list)"
| "scan_keys get (key # ks) (h, m) list =
     (case get key (h, m) of
        Inl err \<Rightarrow> Inl err
      | Inr (h', m') \<Rightarrow> scan_keys get ks (h', m') (append_slice list m'))"

section \<open>The shared Redis instance\<close>

text \<open>
  The key space is an association list from keys to JSON documents, in the order in which
  \<open>KEYS\<close> scans it.  The documents are the ones the three services marshal: a voter, a poll
  or a vote.  Only the commands the services send are modelled, for one client at a time:
  \<^item> \<open>JSON.GET key .\<close> answers the document, or nil for a missing key, which the client
    library returns as the error \<open>redis.Nil\<close>;
  \<^item> \<open>JSON.SET key . doc\<close> stores the document under the key, replacing what was there;
  \<^item> \<open>DEL key ...\<close> removes the keys one after the other and answers how many of them
    existed; the command needs at least one key, and without any the server answers
    \<open>ERR wrong number of arguments for 'del' command\<close> (the client library sends the
    command as it is);
  \<^item> \<open>KEYS prefix*\<close> answers the keys that start with the prefix.
\<close>

datatype doc = VoterDoc Voter | PollDoc Poll | VoteDoc Vote

type_synonym store = "(string \<times> doc) list"

definition JSONGet :: "store \<Rightarrow> string \<Rightarrow> error + doc" where
  "JSONGet s key = (case map_of s key of None \<Rightarrow> Inl redis_Nil | Some d \<Rightarrow> Inr d)"

definition JSONSet :: "store \<Rightarrow> string \<Rightarrow> doc \<Rightarrow> error + store" where
  "JSONSet s key d = Inr (AList.update key d s)"

fun del_keys :: "store \<Rightarrow> string list \<Rightarrow> store \<times> nat" where
  "del_keys s [] = (s, 0)"
| "del_keys s (k # ks) =
     (let (s', n) = del_keys (AList.delete k s) ks
      in (s', (if map_of s k = None then 0 else 1) + n))"

definition Del :: "store \<Rightarrow> string list \<Rightarrow> store \<times> (error + nat)" where
  "Del s ks =
     (if ks = [] then (s, Inl (redis_ERR ''wrong number of arguments for 'del' command''))
      else (let (s', n) = del_keys s ks in (s', Inr n)))"

definition Keys :: "store \<Rightarrow> string \<Rightarrow> string list" where
  \<comment> \<open>the pattern is the given prefix followed by \<open>*\<close>\<close>
  "Keys s pfx = filter (prefix pfx) (map fst s)"

text \<open>\<open>fmt.Sprintf("%d", n)\<close>: the decimal digits of \<open>n\<close>.\<close>

fun decimal :: "nat \<Rightarrow> string" where
  "decimal n =
     (if n < 10 then [''0123456789'' ! n]
      else decimal (n div 10) @ [''0123456789'' ! (n mod 10)])"

declare decimal.simps [simp del]

section \<open>Decoding a stored document\<close>

text \<open>
  \<open>json.Unmarshal\<close> into a fresh (zero) struct sets the fields whose names occur in the
  document and leaves the others zero.  A document marshalled from the same struct
  carries every field, so it is read back whole.  Read into another struct, only the
  fields with a common name are set: \<open>VoterID\<close> is shared by voters and votes, \<open>PollID\<close>
  and \<open>Links\<close> by polls and votes, and they have the same types, so no decoding fails.
\<close>

fun unmarshal_Voter :: "doc \<Rightarrow> Voter" where
  "unmarshal_Voter (VoterDoc v) = v"
| "unmarshal_Voter (PollDoc p) = zero_Voter"
| "unmarshal_Voter (VoteDoc w) = zero_Voter\<lparr>Voter.VoterID := Vote.VoterID w\<rparr>"

fun unmarshal_Poll :: "doc \<Rightarrow> Poll" where
  "unmarshal_Poll (PollDoc p) = p"
| "unmarshal_Poll (VoterDoc v) = zero_Poll"
| "unmarshal_Poll (VoteDoc w) =
     zero_Poll\<lparr>Poll.PollID := Vote.PollID w, Poll.Links := Vote.Links w\<rparr>"

fun unmarshal_Vote :: "doc \<Rightarrow> Vote" where
  "unmarshal_Vote (VoteDoc w) = w"
| "unmarshal_Vote (VoterDoc v) = zero_Vote\<lparr>Vote.VoterID := Voter.VoterID v\<rparr>"
| "unmarshal_Vote (PollDoc p) =
     zero_Vote\<lparr>Vote.PollID := Poll.PollID p, Vote.Links := Poll.Links p\<rparr>"

section \<open>The voters service (db/voters.go)\<close>

definition voters_RedisKeyPrefix :: string where
  "voters_RedisKeyPrefix = ''voters:''"

definition voters_redisKeyFromId :: "uint \<Rightarrow> string" where
  "voters_redisKeyFromId ident = voters_RedisKeyPrefix @ decimal ident"

definition voters_getItemFromRedis :: "store \<Rightarrow> string \<Rightarrow> error + Voter" where
  "voters_getItemFromRedis s key =
     (case JSONGet s key of
        Inl err \<Rightarrow> Inl err
      | Inr voterObject \<Rightarrow> Inr (unmarshal_Voter voterObject))"

definition AddVoter :: "store \<Rightarrow> Voter \<Rightarrow> store \<times> error option" where
  "AddVoter s voter =
     (let redisKey = voters_redisKeyFromId (Voter.VoterID voter) in
      case voters_getItemFromRedis s redisKey of
        Inr existingVoter \<Rightarrow> (s, Some (errors_New ''voter already exists''))
      | Inl _ \<Rightarrow>
          (case JSONSet s redisKey (VoterDoc voter) of
             Inl err \<Rightarrow> (s, Some err)
           | Inr s' \<Rightarrow> (s', None)))"

definition DeleteVoter :: "store \<Rightarrow> uint \<Rightarrow> store \<times> error option" where
  "DeleteVoter s ident =
     (let pattern = voters_redisKeyFromId ident in
      case Del s [pattern] of
        (s', Inl err) \<Rightarrow> (s', Some err)
      | (s', Inr numDeleted) \<Rightarrow>
          if numDeleted = 0 then (s', Some (errors_New ''voter does not exist''))
          else (s', None))"

definition DeleteAllVoters :: "store \<Rightarrow> store \<times> error option" where
  "DeleteAllVoters s =
     (let ks = Keys s voters_RedisKeyPrefix in
      case Del s ks of
        (s', Inl err) \<Rightarrow> (s', Some err)
      | (s', Inr numDeleted) \<Rightarrow>
          if numDeleted \<noteq> length ks
          then (s', Some (errors_New ''one or more voters could not be deleted''))
          else (s', None))"

definition UpdateVoter :: "store \<Rightarrow> Voter \<Rightarrow> store \<times> error option" where
  "UpdateVoter s voter =
     (let redisKey = voters_redisKeyFromId (Voter.VoterID voter) in
      case voters_getItemFromRedis s redisKey of
        Inl _ \<Rightarrow> (s, Some (errors_New ''voter does not exist''))
      | Inr existingVoter \<Rightarrow>
          (case JSONSet s redisKey (VoterDoc voter) of
             Inl err \<Rightarrow> (s, Some err)
           | Inr s' \<Rightarrow> (s', None)))"

definition GetVoter :: "store \<Rightarrow> uint \<Rightarrow> Voter \<times> error option" where
  "GetVoter s ident =
     (let pattern = voters_redisKeyFromId ident in
      case voters_getItemFromRedis s pattern of
        Inl _ \<Rightarrow> (zero_Voter, Some (errors_New ''voter does not exist''))
      | Inr voter \<Rightarrow> (voter, None))"

text \<open>
  The variable \<open>voter\<close> of \<open>GetAllVoters\<close> as it lies in memory, what a copy of it reads as
  in a given heap, and \<open>getItemFromRedis\<close> decoding into that variable: the fields that the
  document has are overwritten, the others keep the value of the round before.
\<close>

record Voter_mem =
  m_VoterID :: uint
  m_FirstName :: string
  m_LastName :: string
  m_VoteHistory :: header

definition zero_Voter_mem :: Voter_mem where
  "zero_Voter_mem = \<lparr>Voter_mem.m_VoterID = 0, m_FirstName = [], m_LastName = [], m_VoteHistory = nil_header\<rparr>"

definition read_Voter :: "voterPoll heap \<Rightarrow> Voter_mem \<Rightarrow> Voter" where
  "read_Voter h m = \<lparr>Voter.VoterID = Voter_mem.m_VoterID m, FirstName = m_FirstName m, LastName = m_LastName m,
                      VoteHistory = slice_elems h (m_VoteHistory m)\<rparr>"

fun unmarshal_Voter_into :: "voterPoll heap \<times> Voter_mem \<Rightarrow> doc \<Rightarrow> voterPoll heap \<times> Voter_mem" where
  "unmarshal_Voter_into (h, m) (VoterDoc v) =
     (let (h', hist) = unmarshal_slice zero_voterPoll h (m_VoteHistory m) (VoteHistory v)
      in (h', \<lparr>Voter_mem.m_VoterID = Voter.VoterID v, m_FirstName = FirstName v, m_LastName = LastName v,
                m_VoteHistory = hist\<rparr>))"
| "unmarshal_Voter_into (h, m) (PollDoc p) = (h, m)"
| "unmarshal_Voter_into (h, m) (VoteDoc w) = (h, m\<lparr>Voter_mem.m_VoterID := Vote.VoterID w\<rparr>)"

definition voters_getItemFromRedis_into ::
    "store \<Rightarrow> string \<Rightarrow> voterPoll heap \<times> Voter_mem \<Rightarrow> error + voterPoll heap \<times> Voter_mem" where
  "voters_getItemFromRedis_into s key hm =
     (case JSONGet s key of
        Inl err \<Rightarrow> Inl err
      | Inr voterObject \<Rightarrow> Inr (unmarshal_Voter_into hm voterObject))"

definition GetAllVoters :: "store \<Rightarrow> Voter slice_value \<times> error option" where
  "GetAllVoters s =
     (let ks = Keys s voters_RedisKeyPrefix in
      case scan_keys (voters_getItemFromRedis_into s) ks ([], zero_Voter_mem) Nil_slice of
        Inl err \<Rightarrow> (Nil_slice, Some err)
      | Inr (h, voterList) \<Rightarrow> (map_slice (read_Voter h) voterList, None))"

text \<open>
  The scan \<open>for i, poll := range voter.VoteHistory\<close> that stops at the first entry with
  the poll id; \<open>None\<close> is the source's \<open>index == -1\<close>.
\<close>

fun poll_index :: "uint \<Rightarrow> voterPoll list \<Rightarrow> nat option" where
  "poll_index pollId [] = None"
| "poll_index pollId (poll # rest) =
     (if voterPoll.PollID poll = pollId then Some 0
      else map_option Suc (poll_index pollId rest))"

text \<open>
  \<open>AddVoterPoll\<close>, \<open>DeleteVoterPoll\<close> and \<open>UpdateVoterPoll\<close> end with
  \<open>v.UpdateVoter(voter)\<close> and drop the error it returns.
\<close>

definition AddVoterPoll :: "store \<Rightarrow> uint \<Rightarrow> Voter \<Rightarrow> (store \<times> error option) outcome" where
  "AddVoterPoll s voterId requestVoter =
     (let pattern = voters_redisKeyFromId voterId in
      case voters_getItemFromRedis s pattern of
        Inl _ \<Rightarrow> Return (s, Some (errors_New ''voter does not exist''))
      | Inr voter \<Rightarrow>
          (case VoteHistory requestVoter of
             [] \<Rightarrow> Panic
           | requestPoll # _ \<Rightarrow>
               if poll_index (voterPoll.PollID requestPoll) (VoteHistory voter) \<noteq> None
               then Return (s, Some (errors_New ''poll already exists in voter''))
               else Return
                 (fst (UpdateVoter s
                         (voter\<lparr>VoteHistory := VoteHistory voter @ [requestPoll]\<rparr>)),
                  None)))"

definition DeleteVoterPoll :: "store \<Rightarrow> uint \<Rightarrow> uint \<Rightarrow> store \<times> error option" where
  "DeleteVoterPoll s voterId pollId =
     (let pattern = voters_redisKeyFromId voterId in
      case voters_getItemFromRedis s pattern of
        Inl _ \<Rightarrow> (s, Some (errors_New ''voter does not exist''))
      | Inr voter \<Rightarrow>
          (case poll_index pollId (VoteHistory voter) of
             None \<Rightarrow> (s, Some (errors_New ''poll does not exist in voter''))
           | Some index \<Rightarrow>
               (fst (UpdateVoter s
                       (voter\<lparr>VoteHistory :=
                          butlast ((VoteHistory voter)[index := last (VoteHistory voter)])\<rparr>)),
                None)))"

definition UpdateVoterPoll :: "store \<Rightarrow> uint \<Rightarrow> Voter \<Rightarrow> (store \<times> error option) outcome" where
  "UpdateVoterPoll s voterId requestVoter =
     (let pattern = voters_redisKeyFromId voterId in
      case voters_getItemFromRedis s pattern of
        Inl _ \<Rightarrow> Return (s, Some (errors_New ''voter does not exist''))
      | Inr voter \<Rightarrow>
          (case VoteHistory requestVoter of
             [] \<Rightarrow> Panic
           | requestPoll # _ \<Rightarrow>
               (case poll_index (voterPoll.PollID requestPoll) (VoteHistory voter) of
                  None \<Rightarrow> Return (s, Some (errors_New ''poll does not exist in voter''))
                | Some index \<Rightarrow>
                    Return
                      (fst (UpdateVoter s
                              (voter\<lparr>VoteHistory := (VoteHistory voter)[index := requestPoll]\<rparr>)),
                       None))))"

section \<open>The polls service (db/polls.go)\<close>

definition polls_RedisKeyPrefix :: string where
  "polls_RedisKeyPrefix = ''polls:''"

definition polls_redisKeyFromId :: "uint \<Rightarrow> string" where
  "polls_redisKeyFromId ident = polls_RedisKeyPrefix @ decimal ident"

definition polls_getItemFromRedis :: "store \<Rightarrow> string \<Rightarrow> error + Poll" where
  "polls_getItemFromRedis s key =
     (case JSONGet s key of
        Inl err \<Rightarrow> Inl err
      | Inr pollObject \<Rightarrow> Inr (unmarshal_Poll pollObject))"

text \<open>The list of links that \<open>AddPoll\<close>, \<open>UpdatePoll\<close> and \<open>GetAllPolls\<close> write out.\<close>

definition poll_Links :: "string list" where
  "poll_Links =
     [''GET All Polls: 1090/polls/'', ''POST Poll: 1090/polls/:id'',
      ''DELETE All Polls: 1090/polls'', ''DELETE Poll: 1090/polls/:id'',
      ''GET All Votes: 1100/votes/'', ''POST Vote: 1100/votes/:id'',
      ''GET All Voters: 1080/voters/'', ''POST Voter: 1080/voters/:id'']"

definition AddPoll :: "store \<Rightarrow> Poll \<Rightarrow> store \<times> error option" where
  "AddPoll s poll =
     (let redisKey = polls_redisKeyFromId (Poll.PollID poll) in
      case polls_getItemFromRedis s redisKey of
        Inr existingPoll \<Rightarrow> (s, Some (errors_New ''poll already exists''))
      | Inl _ \<Rightarrow>
          (case JSONSet s redisKey (PollDoc (poll\<lparr>Poll.Links := poll_Links\<rparr>)) of
             Inl err \<Rightarrow> (s, Some err)
           | Inr s' \<Rightarrow> (s', None)))"

definition DeleteAllPolls :: "store \<Rightarrow> store \<times> error option" where
  "DeleteAllPolls s =
     (let ks = Keys s polls_RedisKeyPrefix in
      case Del s ks of
        (s', Inl err) \<Rightarrow> (s', Some err)
      | (s', Inr numDeleted) \<Rightarrow>
          if numDeleted \<noteq> length ks
          then (s', Some (errors_New ''one or more polls could not be deleted''))
          else (s', None))"

definition UpdatePoll :: "store \<Rightarrow> Poll \<Rightarrow> store \<times> error option" where
  "UpdatePoll s poll =
     (let redisKey = polls_redisKeyFromId (Poll.PollID poll) in
      case polls_getItemFromRedis s redisKey of
        Inl _ \<Rightarrow> (s, Some (errors_New ''poll does not exist''))
      | Inr existingPoll \<Rightarrow>
          (case JSONSet s redisKey (PollDoc (poll\<lparr>Poll.Links := poll_Links\<rparr>)) of
             Inl err \<Rightarrow> (s, Some err)
           | Inr s' \<Rightarrow> (s', None)))"

definition GetPoll :: "store \<Rightarrow> uint \<Rightarrow> Poll \<times> error option" where
  "GetPoll s ident =
     (let pattern = polls_redisKeyFromId ident in
      case polls_getItemFromRedis s pattern of
        Inl _ \<Rightarrow> (zero_Poll, Some (errors_New ''poll does not exist''))
      | Inr poll \<Rightarrow> (poll, None))"

text \<open>
  The variable \<open>poll\<close> of \<open>GetAllPolls\<close> in memory, with one heap for the arrays of options
  and one for the arrays of links.
\<close>

record Poll_mem =
  m_PollID :: uint
  m_PollTitle :: string
  m_PollQuestion :: string
  m_PollOptions :: header
  m_Links :: header

definition zero_Poll_mem :: Poll_mem where
  "zero_Poll_mem = \<lparr>Poll_mem.m_PollID = 0, m_PollTitle = [], m_PollQuestion = [],
                     m_PollOptions = nil_header, Poll_mem.m_Links = nil_header\<rparr>"

definition read_Poll :: "pollOption heap \<times> string heap \<Rightarrow> Poll_mem \<Rightarrow> Poll" where
  "read_Poll h m =
     \<lparr>Poll.PollID = Poll_mem.m_PollID m, PollTitle = m_PollTitle m,
      PollQuestion = m_PollQuestion m,
      PollOptions = slice_elems (fst h) (m_PollOptions m),
      Poll.Links = slice_elems (snd h) (Poll_mem.m_Links m)\<rparr>"

fun unmarshal_Poll_into ::
    "(pollOption heap \<times> string heap) \<times> Poll_mem \<Rightarrow> doc \<Rightarrow>
     (pollOption heap \<times> string heap) \<times> Poll_mem" where
  "unmarshal_Poll_into ((ho, hl), m) (PollDoc p) =
     (let (ho', opts) = unmarshal_slice zero_pollOption ho (m_PollOptions m) (PollOptions p);
          (hl', links) = unmarshal_slice [] hl (Poll_mem.m_Links m) (Poll.Links p)
      in ((ho', hl'),
          \<lparr>Poll_mem.m_PollID = Poll.PollID p, m_PollTitle = PollTitle p,
           m_PollQuestion = PollQuestion p, m_PollOptions = opts,
           Poll_mem.m_Links = links\<rparr>))"
| "unmarshal_Poll_into ((ho, hl), m) (VoterDoc v) = ((ho, hl), m)"
| "unmarshal_Poll_into ((ho, hl), m) (VoteDoc w) =
     (let (hl', links) = unmarshal_slice [] hl (Poll_mem.m_Links m) (Vote.Links w)
      in ((ho, hl'), m\<lparr>Poll_mem.m_PollID := Vote.PollID w, Poll_mem.m_Links := links\<rparr>))"

definition polls_getItemFromRedis_into ::
    "store \<Rightarrow> string \<Rightarrow> (pollOption heap \<times> string heap) \<times> Poll_mem \<Rightarrow>
     error + (pollOption heap \<times> string heap) \<times> Poll_mem" where
  "polls_getItemFromRedis_into s key hm =
     (case JSONGet s key of
        Inl err \<Rightarrow> Inl err
      | Inr pollObject \<Rightarrow> Inr (unmarshal_Poll_into hm pollObject))"

definition GetAllPolls :: "store \<Rightarrow> Poll slice_value \<times> error option" where
  "GetAllPolls s =
     (let ks = Keys s polls_RedisKeyPrefix in
      case scan_keys (polls_getItemFromRedis_into s) ks (([], []), zero_Poll_mem) Nil_slice of
        Inl err \<Rightarrow> (Nil_slice, Some err)
      | Inr (h, pollList) \<Rightarrow>
          (if len_slice pollList < 1
           then append_slice (map_slice (read_Poll h) pollList)
                  \<lparr>Poll.PollID = 0, PollTitle = [], PollQuestion = [], PollOptions = [],
                   Poll.Links = poll_Links\<rparr>
           else map_slice (read_Poll h) pollList,
           None))"

section \<open>The votes service (votes-api/db/votes.go)\<close>

definition votes_RedisKeyPrefix :: string where
  "votes_RedisKeyPrefix = ''votes:''"

definition votes_redisKeyFromId :: "uint \<Rightarrow> string" where
  "votes_redisKeyFromId ident = votes_RedisKeyPrefix @ decimal ident"

definition votes_getItemFromRedis :: "store \<Rightarrow> string \<Rightarrow> error + Vote" where
  "votes_getItemFromRedis s key =
     (case JSONGet s key of
        Inl err \<Rightarrow> Inl err
      | Inr voteObject \<Rightarrow> Inr (unmarshal_Vote voteObject))"

definition vote_Links :: "string list" where
  "vote_Links =
     [''GET All Votes: 1100/votes/'', ''POST Vote: 1100/votes/:id'',
      ''DELETE All Votes: 1100/votes'', ''DELETE Vote: 1100/votes/:id'',
      ''GET All Voters: 1080/voters/'', ''POST Voter: 1080/voters/:id'',
      ''GET All Polls: 1090/Polls/'', ''POST Poll: 1090/polls/:id'']"

text \<open>
  \<open>AddVote\<close> reads the voter and the poll through its own \<open>getItemFromRedis\<close>, that is
  into a \<open>Vote\<close>, under the keys \<open>voters:<VoterID>\<close> and \<open>polls:<PollID>\<close>.
\<close>

definition AddVote :: "store \<Rightarrow> Vote \<Rightarrow> store \<times> error option" where
  "AddVote s vote =
     (let redisKey = votes_redisKeyFromId (VoteID vote) in
      case votes_getItemFromRedis s redisKey of
        Inr existingVote \<Rightarrow> (s, Some (errors_New ''vote already exists''))
      | Inl _ \<Rightarrow>
          (case votes_getItemFromRedis s (''voters:'' @ decimal (Vote.VoterID vote)) of
             Inl _ \<Rightarrow> (s, Some (errors_New ''voter does not exists''))
           | Inr checkVoter \<Rightarrow>
               (case votes_getItemFromRedis s (''polls:'' @ decimal (Vote.PollID vote)) of
                  Inl _ \<Rightarrow> (s, Some (errors_New ''poll does not exists''))
                | Inr checkPoll \<Rightarrow>
                    (case JSONSet s redisKey (VoteDoc (vote\<lparr>Vote.Links := vote_Links\<rparr>)) of
                       Inl err \<Rightarrow> (s, Some err)
                     | Inr s' \<Rightarrow> (s', None)))))"

definition DeleteAllVotes :: "store \<Rightarrow> store \<times> error option" where
  "DeleteAllVotes s =
     (let ks = Keys s votes_RedisKeyPrefix in
      case Del s ks of
        (s', Inl err) \<Rightarrow> (s', Some err)
      | (s', Inr numDeleted) \<Rightarrow>
          if numDeleted \<noteq> length ks
          then (s', Some (errors_New ''one or more votes could not be deleted''))
          else (s', None))"

definition UpdateVote :: "store \<Rightarrow> Vote \<Rightarrow> store \<times> error option" where
  "UpdateVote s vote =
     (let redisKey = votes_redisKeyFromId (VoteID vote) in
      case votes_getItemFromRedis s redisKey of
        Inl _ \<Rightarrow> (s, Some (errors_New ''vote does not exist''))
      | Inr existingVote \<Rightarrow>
          (case JSONSet s redisKey (VoteDoc (vote\<lparr>Vote.Links := vote_Links\<rparr>)) of
             Inl err \<Rightarrow> (s, Some err)
           | Inr s' \<Rightarrow> (s', None)))"

definition GetVote :: "store \<Rightarrow> uint \<Rightarrow> Vote \<times> error option" where
  "GetVote s ident =
     (let pattern = votes_redisKeyFromId ident in
      case votes_getItemFromRedis s pattern of
        Inl _ \<Rightarrow> (zero_Vote, Some (errors_New ''vote does not exist''))
      | Inr vote \<Rightarrow> (vote, None))"

text \<open>The variable \<open>vote\<close> of \<open>GetAllVotes\<close> in memory.\<close>

record Vote_mem =
  m_VoteID :: uint
  m_VoterID :: uint
  m_PollID :: uint
  m_VoteValue :: uint
  m_Links :: header

definition zero_Vote_mem :: Vote_mem where
  "zero_Vote_mem = \<lparr>m_VoteID = 0, Vote_mem.m_VoterID = 0, Vote_mem.m_PollID = 0,
                     m_VoteValue = 0, Vote_mem.m_Links = nil_header\<rparr>"

definition read_Vote :: "string heap \<Rightarrow> Vote_mem \<Rightarrow> Vote" where
  "read_Vote h m =
     \<lparr>VoteID = m_VoteID m, Vote.VoterID = Vote_mem.m_VoterID m,
      Vote.PollID = Vote_mem.m_PollID m, VoteValue = m_VoteValue m,
      Vote.Links = slice_elems h (Vote_mem.m_Links m)\<rparr>"

fun unmarshal_Vote_into :: "string heap \<times> Vote_mem \<Rightarrow> doc \<Rightarrow> string heap \<times> Vote_mem" where
  "unmarshal_Vote_into (h, m) (VoteDoc w) =
     (let (h', links) = unmarshal_slice [] h (Vote_mem.m_Links m) (Vote.Links w)
      in (h', \<lparr>m_VoteID = VoteID w, Vote_mem.m_VoterID = Vote.VoterID w,
                Vote_mem.m_PollID = Vote.PollID w, m_VoteValue = VoteValue w,
                Vote_mem.m_Links = links\<rparr>))"
| "unmarshal_Vote_into (h, m) (VoterDoc v) = (h, m\<lparr>Vote_mem.m_VoterID := Voter.VoterID v\<rparr>)"
| "unmarshal_Vote_into (h, m) (PollDoc p) =
     (let (h', links) = unmarshal_slice [] h (Vote_mem.m_Links m) (Poll.Links p)
      in (h', m\<lparr>Vote_mem.m_PollID := Poll.PollID p, Vote_mem.m_Links := links\<rparr>))"

definition votes_getItemFromRedis_into ::
    "store \<Rightarrow> string \<Rightarrow> string heap \<times> Vote_mem \<Rightarrow> error + string heap \<times> Vote_mem" where
  "votes_getItemFromRedis_into s key hm =
     (case JSONGet s key of
        Inl err \<Rightarrow> Inl err
      | Inr voteObject \<Rightarrow> Inr (unmarshal_Vote_into hm voteObject))"

definition GetAllVotes :: "store \<Rightarrow> Vote slice_value \<times> error option" where
  "GetAllVotes s =
     (let ks = Keys s votes_RedisKeyPrefix in
      case scan_keys (votes_getItemFromRedis_into s) ks ([], zero_Vote_mem) Nil_slice of
        Inl err \<Rightarrow> (Nil_slice, Some err)
      | Inr (h, voteList) \<Rightarrow>
          (if len_slice voteList < 1
           then append_slice (map_slice (read_Vote h) voteList)
                  \<lparr>VoteID = 0, Vote.VoterID = 0, Vote.PollID = 0, VoteValue = 0,
                   Vote.Links = vote_Links\<rparr>
           else map_slice (read_Vote h) voteList,
           None))"

section \<open>Histories with one entry per poll\<close>

definition unique_polls :: "Voter \<Rightarrow> bool" where
  "unique_polls v = distinct (map voterPoll.PollID (VoteHistory v))"

fun doc_unique_polls :: "doc \<Rightarrow> bool" where
  "doc_unique_polls (VoterDoc v) = unique_polls v"
| "doc_unique_polls _ = True"

definition store_unique_polls :: "store \<Rightarrow> bool" where
  "store_unique_polls s = list_all (\<lambda>(k, d). doc_unique_polls d) s"

section \<open>The records of a namespace\<close>

text \<open>
  The documents that \<open>JSON.GET\<close> finds under the keys that \<open>KEYS\<close> answers for a prefix, in
  that order, and the records they decode to.  The shape of a record is its id, its
  other scalar fields and the lengths of its lists.
\<close>

fun slice_list :: "'a slice_value \<Rightarrow> 'a list" where
  "slice_list Nil_slice = []"
| "slice_list (Slice xs) = xs"

definition stored_docs :: "store \<Rightarrow> string \<Rightarrow> doc list" where
  "stored_docs s pfx = List.map_filter (map_of s) (Keys s pfx)"

fun is_VoterDoc :: "doc \<Rightarrow> bool" where
  "is_VoterDoc (VoterDoc v) = True"
| "is_VoterDoc _ = False"

fun is_PollDoc :: "doc \<Rightarrow> bool" where
  "is_PollDoc (PollDoc p) = True"
| "is_PollDoc _ = False"

fun is_VoteDoc :: "doc \<Rightarrow> bool" where
  "is_VoteDoc (VoteDoc w) = True"
| "is_VoteDoc _ = False"

definition stored_voters :: "store \<Rightarrow> Voter list" where
  "stored_voters s = map unmarshal_Voter (stored_docs s voters_RedisKeyPrefix)"

definition stored_polls :: "store \<Rightarrow> Poll list" where
  "stored_polls s = map unmarshal_Poll (stored_docs s polls_RedisKeyPrefix)"

definition stored_votes :: "store \<Rightarrow> Vote list" where
  "stored_votes s = map unmarshal_Vote (stored_docs s votes_RedisKeyPrefix)"

definition voter_shape :: "Voter \<Rightarrow> uint \<times> string \<times> string \<times> nat" where
  "voter_shape v = (Voter.VoterID v, FirstName v, LastName v, length (VoteHistory v))"

definition poll_shape :: "Poll \<Rightarrow> uint \<times> string \<times> string \<times> nat \<times> nat" where
  "poll_shape p =
     (Poll.PollID p, PollTitle p, PollQuestion p, length (PollOptions p), length (Poll.Links p))"

definition vote_shape :: "Vote \<Rightarrow> uint \<times> uint \<times> uint \<times> uint \<times> nat" where
  "vote_shape w =
     (VoteID w, Vote.VoterID w, Vote.PollID w, VoteValue w, length (Vote.Links w))"

text \<open>
  A header is valid in a heap when its length is within its capacity and its array, if it
  has cells, is in the heap and has as many cells as the capacity.  A heap extends another
  when it has the arrays of the other, each with as many cells as before.
\<close>

definition valid :: "'a heap \<Rightarrow> header \<Rightarrow> bool" where
  "valid h v \<longleftrightarrow> len v \<le> cap v \<and> (cap v = 0 \<or> (arr v < length h \<and> length (h ! arr v) = cap v))"

definition ext :: "'a heap \<Rightarrow> 'a heap \<Rightarrow> bool" where
  "ext h h' \<longleftrightarrow> length h \<le> length h' \<and> (\<forall>a < length h. length (h' ! a) = length (h ! a))"

section \<open>Stores that the services build\<close>

text \<open>
  Every service stores a record under the key made from the record's own id, and the
  polls and votes services store it with their fixed list of links.
\<close>

fun doc_built :: "string \<Rightarrow> doc \<Rightarrow> bool" where
  "doc_built k (VoterDoc v) = (k = voters_redisKeyFromId (Voter.VoterID v))"
| "doc_built k (PollDoc p) = (k = polls_redisKeyFromId (Poll.PollID p) \<and> Poll.Links p = poll_Links)"
| "doc_built k (VoteDoc w) = (k = votes_redisKeyFromId (VoteID w) \<and> Vote.Links w = vote_Links)"

definition built :: "store \<Rightarrow> bool" where
  "built s = list_all (\<lambda>(k, d). doc_built k d) s"

section \<open>Example data\<close>

definition ex_voter ::Voter where
  "ex_voter = \<lparr>Voter.VoterID = 1, FirstName = ''John'', LastName = ''Doe'',
                VoteHistory = [\<lparr>voterPoll.PollID = 5, VoteDate = 100\<rparr>]\<rparr>"

definition ex_voter_dup :: Voter where
  "ex_voter_dup = \<lparr>Voter.VoterID = 2, FirstName = ''Jane'', LastName = ''Roe'',
                    VoteHistory = [\<lparr>voterPoll.PollID = 5, VoteDate = 100\<rparr>,
                                   \<lparr>voterPoll.PollID = 5, VoteDate = 200\<rparr>]\<rparr>"

definition ex_poll :: Poll where
  "ex_poll = \<lparr>Poll.PollID = 5, PollTitle = ''Lunch'', PollQuestion = ''Pizza?'',
               PollOptions = [\<lparr>PollOptionID = 1, PollOptionText = ''yes''\<rparr>],
               Poll.Links = []\<rparr>"

definition ex_vote :: Vote where
  "ex_vote = \<lparr>VoteID = 10, Vote.VoterID = 1, Vote.PollID = 5, VoteValue = 1, Vote.Links = []\<rparr>"

definition ex_vote_dangling :: Vote where
  "ex_vote_dangling = \<lparr>VoteID = 11, Vote.VoterID = 99, Vote.PollID = 5, VoteValue = 1, Vote.Links = []\<rparr>"

definition ex_store :: store where
  "ex_store = [(''voters:1'', VoterDoc ex_voter),
               (''polls:5'', PollDoc (ex_poll\<lparr>Poll.Links := poll_Links\<rparr>))]"

definition ex_request :: Voter where
  "ex_request = \<lparr>Voter.VoterID = 1, FirstName = [], LastName = [],
                  VoteHistory = [\<lparr>voterPoll.PollID = 6, VoteDate = 300\<rparr>]\<rparr>"

definition ex_voter3 :: Voter where
  "ex_voter3 = \<lparr>Voter.VoterID = 3, FirstName = ''Ann'', LastName = ''Poe'',
                VoteHistory = [\<lparr>voterPoll.PollID = 6, VoteDate = 300\<rparr>]\<rparr>"

definition ex_store2 :: store where
  "ex_store2 = [(''voters:1'', VoterDoc ex_voter), (''voters:3'', VoterDoc ex_voter3)]"

definition ex_store3 :: store where
  "ex_store3 = [(''voters:1'', VoterDoc ex_voter),
                (''polls:5'', PollDoc (ex_poll\<lparr>Poll.Links := poll_Links\<rparr>)),
                (''votes:10'', VoteDoc (ex_vote\<lparr>Vote.Links := vote_Links\<rparr>))]"

definition ex_request5 :: Voter where
  "ex_request5 = \<lparr>Voter.VoterID = 1, FirstName = [], LastName = [],
                   VoteHistory = [\<lparr>voterPoll.PollID = 5, VoteDate = 400\<rparr>]\<rparr>"

definition ex_voter4 :: Voter where
  "ex_voter4 = \<lparr>Voter.VoterID = 4, FirstName = ''Max'', LastName = ''Lee'',
                 VoteHistory = [\<lparr>voterPoll.PollID = 4, VoteDate = 50\<rparr>,
                                \<lparr>voterPoll.PollID = 5, VoteDate = 100\<rparr>,
                                \<lparr>voterPoll.PollID = 6, VoteDate = 300\<rparr>,
                                \<lparr>voterPoll.PollID = 5, VoteDate = 200\<rparr>]\<rparr>"

definition ex_voter5 :: Voter where
  "ex_voter5 = \<lparr>Voter.VoterID = 5, FirstName = ''Kim'', LastName = ''Ash'',
                 VoteHistory = [\<lparr>voterPoll.PollID = 4, VoteDate = 50\<rparr>,
                                \<lparr>voterPoll.PollID = 5, VoteDate = 100\<rparr>,
                                \<lparr>voterPoll.PollID = 6, VoteDate = 300\<rparr>]\<rparr>"

definition ex_store4 :: store where
  "ex_store4 = [(''voters:4'', VoterDoc ex_voter4), (''voters:5'', VoterDoc ex_voter5)]"

section \<open>Keys\<close>

lemma decimal_not_Nil: "decimal n \<noteq> []"
  by (subst decimal.simps) simp

lemma digit_inj: "a < 10 \<Longrightarrow> b < 10 \<Longrightarrow> ''0123456789'' ! a = ''0123456789'' ! b \<Longrightarrow> a = b"
proof -
  assume a: "a < 10" and b: "b < 10" and e: "''0123456789'' ! a = ''0123456789'' ! b"
  have d: "distinct ''0123456789''" by simp
  have "a < length ''0123456789''" "b < length ''0123456789''" using a b by simp_all
  with d e show "a = b" using nth_eq_iff_index_eq by blast
qed

lemma decimal_inj: "decimal n = decimal m \<Longrightarrow> n = m"
proof (induction n arbitrary: m rule: decimal.induct)
  case (1 n)
  show ?case
  proof (cases "n < 10")
    case True
    show ?thesis
    proof (cases "m < 10")
      case m: True
      from "1.prems" True m have "''0123456789'' ! n = ''0123456789'' ! m"
        by (simp add: decimal.simps [of n] decimal.simps [of m])
      with True m show ?thesis using digit_inj by blast
    next
      case False
      with "1.prems" True show ?thesis
        using decimal_not_Nil [of "m div 10"]
        by (simp add: decimal.simps [of n] decimal.simps [of m])
    qed
  next
    case False
    show ?thesis
    proof (cases "m < 10")
      case True
      with "1.prems" False show ?thesis
        using decimal_not_Nil [of "n div 10"]
        by (simp add: decimal.simps [of n] decimal.simps [of m])
    next
      case m: False
      from "1.prems" False m
      have e: "decimal (n div 10) = decimal (m div 10)"
        and d: "''0123456789'' ! (n mod 10) = ''0123456789'' ! (m mod 10)"
        by (simp_all add: decimal.simps [of n] decimal.simps [of m])
      from "1.IH" [OF False e] have q: "n div 10 = m div 10" .
      have r: "n mod 10 = m mod 10" using d by (intro digit_inj) simp_all
      from q r show ?thesis by (metis div_mult_mod_eq)
    qed
  qed
qed

lemma voters_key_inj: "voters_redisKeyFromId a = voters_redisKeyFromId b \<Longrightarrow> a = b"
  by (simp add: voters_redisKeyFromId_def decimal_inj)

lemma polls_key_not_voters: "polls_redisKeyFromId j \<noteq> voters_redisKeyFromId i"
  by (simp add: polls_redisKeyFromId_def voters_redisKeyFromId_def polls_RedisKeyPrefix_def voters_RedisKeyPrefix_def)

lemma votes_key_not_voters: "votes_redisKeyFromId j \<noteq> voters_redisKeyFromId i"
  by (simp add: votes_redisKeyFromId_def voters_redisKeyFromId_def votes_RedisKeyPrefix_def voters_RedisKeyPrefix_def)

lemmas key_defs = voters_redisKeyFromId_def voters_RedisKeyPrefix_def
  polls_redisKeyFromId_def polls_RedisKeyPrefix_def
  votes_redisKeyFromId_def votes_RedisKeyPrefix_def decimal.simps

lemmas ex_defs = ex_voter_def ex_voter_dup_def ex_poll_def ex_vote_def ex_vote_dangling_def ex_store_def

lemmas ex_defs' = ex_defs ex_request_def

section \<open>The store commands and the operations, unfolded\<close>

lemma map_of_JSONSet: "JSONSet s k d = Inr s' \<Longrightarrow> map_of s' = (map_of s)(k \<mapsto> d)"
  by (auto simp: JSONSet_def update_conv')

lemma map_of_del_keys: "map_of (fst (del_keys s ks)) k = (if k \<in> set ks then None else map_of s k)"
  by (induction ks arbitrary: s) (simp_all add: delete_conv case_prod_unfold Let_def)

lemma voters_getItem_conv:
  "voters_getItemFromRedis s k = (case map_of s k of None \<Rightarrow> Inl redis_Nil | Some d \<Rightarrow> Inr (unmarshal_Voter d))"
  by (simp add: voters_getItemFromRedis_def JSONGet_def split: option.splits)

lemma polls_getItem_conv:
  "polls_getItemFromRedis s k = (case map_of s k of None \<Rightarrow> Inl redis_Nil | Some d \<Rightarrow> Inr (unmarshal_Poll d))"
  by (simp add: polls_getItemFromRedis_def JSONGet_def split: option.splits)

lemma votes_getItem_conv:
  "votes_getItemFromRedis s k = (case map_of s k of None \<Rightarrow> Inl redis_Nil | Some d \<Rightarrow> Inr (unmarshal_Vote d))"
  by (simp add: votes_getItemFromRedis_def JSONGet_def split: option.splits)

lemma AddVoter_conv:
  "AddVoter s voter =
     (if map_of s (voters_redisKeyFromId (Voter.VoterID voter)) = None
      then (AList.update (voters_redisKeyFromId (Voter.VoterID voter)) (VoterDoc voter) s, None)
      else (s, Some (errors_New ''voter already exists'')))"
  by (auto simp: AddVoter_def Let_def voters_getItem_conv JSONSet_def split: option.splits)

lemma UpdateVoter_conv:
  "UpdateVoter s voter =
     (if map_of s (voters_redisKeyFromId (Voter.VoterID voter)) = None
      then (s, Some (errors_New ''voter does not exist''))
      else (AList.update (voters_redisKeyFromId (Voter.VoterID voter)) (VoterDoc voter) s, None))"
  by (auto simp: UpdateVoter_def Let_def voters_getItem_conv JSONSet_def split: option.splits)

lemma DeleteVoter_conv:
  "DeleteVoter s ident =
     (if map_of s (voters_redisKeyFromId ident) = None
      then (AList.delete (voters_redisKeyFromId ident) s, Some (errors_New ''voter does not exist''))
      else (AList.delete (voters_redisKeyFromId ident) s, None))"
  by (auto simp: DeleteVoter_def Let_def Del_def)

lemma GetVoter_conv:
  "GetVoter s ident =
     (case map_of s (voters_redisKeyFromId ident) of
        None \<Rightarrow> (zero_Voter, Some (errors_New ''voter does not exist''))
      | Some d \<Rightarrow> (unmarshal_Voter d, None))"
  by (auto simp: GetVoter_def Let_def voters_getItem_conv split: option.splits)

lemma AddPoll_conv:
  "AddPoll s poll =
     (if map_of s (polls_redisKeyFromId (Poll.PollID poll)) = None
      then (AList.update (polls_redisKeyFromId (Poll.PollID poll))
              (PollDoc (poll\<lparr>Poll.Links := poll_Links\<rparr>)) s, None)
      else (s, Some (errors_New ''poll already exists'')))"
  by (auto simp: AddPoll_def Let_def polls_getItem_conv JSONSet_def split: option.splits)

lemma GetPoll_conv:
  "GetPoll s ident =
     (case map_of s (polls_redisKeyFromId ident) of
        None \<Rightarrow> (zero_Poll, Some (errors_New ''poll does not exist''))
      | Some d \<Rightarrow> (unmarshal_Poll d, None))"
  by (auto simp: GetPoll_def Let_def polls_getItem_conv split: option.splits)

lemma AddVote_conv:
  "AddVote s vote =
     (if map_of s (votes_redisKeyFromId (VoteID vote)) \<noteq> None
      then (s, Some (errors_New ''vote already exists''))
      else if map_of s (voters_redisKeyFromId (Vote.VoterID vote)) = None
      then (s, Some (errors_New ''voter does not exists''))
      else if map_of s (polls_redisKeyFromId (Vote.PollID vote)) = None
      then (s, Some (errors_New ''poll does not exists''))
      else (AList.update (votes_redisKeyFromId (VoteID vote))
              (VoteDoc (vote\<lparr>Vote.Links := vote_Links\<rparr>)) s, None))"
  by (auto simp: AddVote_def Let_def votes_getItem_conv JSONSet_def
        voters_redisKeyFromId_def voters_RedisKeyPrefix_def
        polls_redisKeyFromId_def polls_RedisKeyPrefix_def split: option.splits)

lemma GetVote_conv:
  "GetVote s ident =
     (case map_of s (votes_redisKeyFromId ident) of
        None \<Rightarrow> (zero_Vote, Some (errors_New ''vote does not exist''))
      | Some d \<Rightarrow> (unmarshal_Vote d, None))"
  by (auto simp: GetVote_def Let_def votes_getItem_conv split: option.splits)

lemma AddVoterPoll_conv:
  "AddVoterPoll s voterId r =
     (case map_of s (voters_redisKeyFromId voterId) of
        None \<Rightarrow> Return (s, Some (errors_New ''voter does not exist''))
      | Some d \<Rightarrow>
          (case VoteHistory r of
             [] \<Rightarrow> Panic
           | requestPoll # _ \<Rightarrow>
               if poll_index (voterPoll.PollID requestPoll) (VoteHistory (unmarshal_Voter d)) \<noteq> None
               then Return (s, Some (errors_New ''poll already exists in voter''))
               else Return
                 (fst (UpdateVoter s
                         ((unmarshal_Voter d)\<lparr>VoteHistory := VoteHistory (unmarshal_Voter d) @ [requestPoll]\<rparr>)),
                  None)))"
  by (simp add: AddVoterPoll_def Let_def voters_getItem_conv split: option.splits)

lemma UpdateVoterPoll_conv:
  "UpdateVoterPoll s voterId r =
     (case map_of s (voters_redisKeyFromId voterId) of
        None \<Rightarrow> Return (s, Some (errors_New ''voter does not exist''))
      | Some d \<Rightarrow>
          (case VoteHistory r of
             [] \<Rightarrow> Panic
           | requestPoll # _ \<Rightarrow>
               (case poll_index (voterPoll.PollID requestPoll) (VoteHistory (unmarshal_Voter d)) of
                  None \<Rightarrow> Return (s, Some (errors_New ''poll does not exist in voter''))
                | Some index \<Rightarrow>
                    Return
                      (fst (UpdateVoter s
                              ((unmarshal_Voter d)\<lparr>VoteHistory := (VoteHistory (unmarshal_Voter d))[index := requestPoll]\<rparr>)),
                       None))))"
  by (simp add: UpdateVoterPoll_def Let_def voters_getItem_conv split: option.splits)

lemma DeleteVoterPoll_conv:
  "DeleteVoterPoll s voterId pollId =
     (case map_of s (voters_redisKeyFromId voterId) of
        None \<Rightarrow> (s, Some (errors_New ''voter does not exist''))
      | Some d \<Rightarrow>
          (case poll_index pollId (VoteHistory (unmarshal_Voter d)) of
             None \<Rightarrow> (s, Some (errors_New ''poll does not exist in voter''))
           | Some index \<Rightarrow>
               (fst (UpdateVoter s
                       ((unmarshal_Voter d)\<lparr>VoteHistory :=
                          butlast ((VoteHistory (unmarshal_Voter d))[index := last (VoteHistory (unmarshal_Voter d))])\<rparr>)),
                None)))"
  by (simp add: DeleteVoterPoll_def Let_def voters_getItem_conv split: option.splits)

lemma ex_store_reachable: "ex_store = fst (AddPoll (fst (AddVoter [] ex_voter)) ex_poll)"
  by (simp add: AddVoter_conv AddPoll_conv key_defs ex_defs)

section \<open>Creating a vote\<close>

text \<open>
  C1, as amended.  For a vote whose own key is absent, \<open>AddVote\<close> fails with
  \<open>voter does not exists\<close> when the voter's key is absent, and with \<open>poll does not exists\<close>
  when the voter's key is present and the poll's key is absent.  When the vote's own key
  is present it fails with \<open>vote already exists\<close>, whatever the references.  Whenever it
  fails the store is returned unchanged.
\<close>

theorem AddVote_reference_errors:
  "(map_of s (votes_redisKeyFromId (VoteID V)) = None \<and>
    map_of s (voters_redisKeyFromId (Vote.VoterID V)) = None \<longrightarrow>
      AddVote s V = (s, Some (errors_New ''voter does not exists''))) \<and>
   (map_of s (votes_redisKeyFromId (VoteID V)) = None \<and>
    map_of s (voters_redisKeyFromId (Vote.VoterID V)) \<noteq> None \<and>
    map_of s (polls_redisKeyFromId (Vote.PollID V)) = None \<longrightarrow>
      AddVote s V = (s, Some (errors_New ''poll does not exists''))) \<and>
   (map_of s (votes_redisKeyFromId (VoteID V)) \<noteq> None \<longrightarrow>
      AddVote s V = (s, Some (errors_New ''vote already exists''))) \<and>
   (snd (AddVote s V) \<noteq> None \<longrightarrow> fst (AddVote s V) = s)"
  by (simp add: AddVote_conv)

theorem AddVote_reference_errors_witness:
  "AddVote ex_store ex_vote_dangling = (ex_store, Some (errors_New ''voter does not exists'')) \<and>
   AddVote ex_store (ex_vote\<lparr>Vote.PollID := 7\<rparr>) = (ex_store, Some (errors_New ''poll does not exists'')) \<and>
   AddVote (fst (AddVote ex_store ex_vote)) ex_vote =
     (fst (AddVote ex_store ex_vote), Some (errors_New ''vote already exists''))"
  using AddVote_reference_errors [of ex_store ex_vote_dangling]
    AddVote_reference_errors [of ex_store "ex_vote\<lparr>Vote.PollID := 7\<rparr>"]
    AddVote_reference_errors [of "fst (AddVote ex_store ex_vote)" ex_vote]
  by (simp add: AddVote_conv key_defs ex_defs)

text \<open>
  After voter 1, poll 5 and vote 10 are created and voter 1 is deleted, the voter of vote 10
  is missing, and creating vote 10 again fails with \<open>vote already exists\<close>, not with the
  reference error.
\<close>

theorem AddVote_existing_vote_counterexample:
  "map_of (fst (DeleteVoter (fst (AddVote ex_store ex_vote)) 1))
      (voters_redisKeyFromId (Vote.VoterID ex_vote)) = None \<and>
   snd (AddVote (fst (DeleteVoter (fst (AddVote ex_store ex_vote)) 1)) ex_vote)
     = Some (errors_New ''vote already exists'')"
  by (simp add: AddVote_conv DeleteVoter_conv key_defs ex_defs)

section \<open>Create, then get\<close>

text \<open>
  C2, as amended.  After the create of a voter or a poll whose key was absent, the get of
  its id returns the voter as given, or the poll as given with \<open>Links\<close> replaced by the fixed
  list.  The same holds for a vote whose key was absent when, in addition, the keys of its
  voter and of its poll are present.
\<close>

theorem create_then_get:
  "(map_of s (voters_redisKeyFromId (Voter.VoterID E)) = None \<longrightarrow>
      GetVoter (fst (AddVoter s E)) (Voter.VoterID E) = (E, None)) \<and>
   (map_of s (polls_redisKeyFromId (Poll.PollID P)) = None \<longrightarrow>
      GetPoll (fst (AddPoll s P)) (Poll.PollID P) = (P\<lparr>Poll.Links := poll_Links\<rparr>, None)) \<and>
   (map_of s (votes_redisKeyFromId (VoteID V)) = None \<and>
    map_of s (voters_redisKeyFromId (Vote.VoterID V)) \<noteq> None \<and>
    map_of s (polls_redisKeyFromId (Vote.PollID V)) \<noteq> None \<longrightarrow>
      GetVote (fst (AddVote s V)) (VoteID V) = (V\<lparr>Vote.Links := vote_Links\<rparr>, None))"
  by (simp add: AddVoter_conv AddPoll_conv AddVote_conv GetVoter_conv GetPoll_conv GetVote_conv update_conv')

theorem create_then_get_witness:
  "GetVoter (fst (AddVoter [] ex_voter)) 1 = (ex_voter, None) \<and>
   GetPoll (fst (AddPoll [] ex_poll)) 5 = (ex_poll\<lparr>Poll.Links := poll_Links\<rparr>, None) \<and>
   GetVote (fst (AddVote ex_store ex_vote)) 10 = (ex_vote\<lparr>Vote.Links := vote_Links\<rparr>, None)"
  using create_then_get [of "[]" ex_voter ex_poll ex_vote]
    create_then_get [of ex_store ex_voter ex_poll ex_vote]
  by (simp add: key_defs ex_defs)

text \<open>
  Vote 11 is not yet present, but its voter 99 is missing: the create fails and the get
  finds nothing.
\<close>

theorem create_then_get_vote_counterexample:
  "map_of ex_store (votes_redisKeyFromId (VoteID ex_vote_dangling)) = None \<and>
   GetVote (fst (AddVote ex_store ex_vote_dangling)) (VoteID ex_vote_dangling) =
     (zero_Vote, Some (errors_New ''vote does not exist''))"
  by (simp add: AddVote_conv GetVote_conv key_defs ex_defs)

text \<open>
  C5, as amended.  A voter or a poll whose key is absent is created, and so is a vote
  whose key is absent and whose voter and poll are present.  A second create with the
  same id then returns the already-exists error and returns the store as the first call
  left it, so that the record of the first call is still read back.
\<close>

theorem create_twice_AlreadyExists:
  "(map_of s (voters_redisKeyFromId (Voter.VoterID E)) = None \<and>
    Voter.VoterID E' = Voter.VoterID E \<longrightarrow>
      snd (AddVoter s E) = None \<and>
      AddVoter (fst (AddVoter s E)) E' =
        (fst (AddVoter s E), Some (errors_New ''voter already exists'')) \<and>
      GetVoter (fst (AddVoter s E)) (Voter.VoterID E) = (E, None)) \<and>
   (map_of s (polls_redisKeyFromId (Poll.PollID P)) = None \<and>
    Poll.PollID P' = Poll.PollID P \<longrightarrow>
      snd (AddPoll s P) = None \<and>
      AddPoll (fst (AddPoll s P)) P' =
        (fst (AddPoll s P), Some (errors_New ''poll already exists'')) \<and>
      GetPoll (fst (AddPoll s P)) (Poll.PollID P) = (P\<lparr>Poll.Links := poll_Links\<rparr>, None)) \<and>
   (map_of s (votes_redisKeyFromId (VoteID V)) = None \<and>
    map_of s (voters_redisKeyFromId (Vote.VoterID V)) \<noteq> None \<and>
    map_of s (polls_redisKeyFromId (Vote.PollID V)) \<noteq> None \<and>
    VoteID V' = VoteID V \<longrightarrow>
      snd (AddVote s V) = None \<and>
      AddVote (fst (AddVote s V)) V' =
        (fst (AddVote s V), Some (errors_New ''vote already exists'')) \<and>
      GetVote (fst (AddVote s V)) (VoteID V) = (V\<lparr>Vote.Links := vote_Links\<rparr>, None))"
proof -
  have v: "map_of s (voters_redisKeyFromId (Voter.VoterID E)) = None \<and>
    Voter.VoterID E' = Voter.VoterID E \<longrightarrow>
      snd (AddVoter s E) = None \<and>
      AddVoter (fst (AddVoter s E)) E' =
        (fst (AddVoter s E), Some (errors_New ''voter already exists'')) \<and>
      GetVoter (fst (AddVoter s E)) (Voter.VoterID E) = (E, None)"
    by (simp add: AddVoter_conv [of s E] AddVoter_conv [of _ E'] GetVoter_conv update_conv')
  have p: "map_of s (polls_redisKeyFromId (Poll.PollID P)) = None \<and>
    Poll.PollID P' = Poll.PollID P \<longrightarrow>
      snd (AddPoll s P) = None \<and>
      AddPoll (fst (AddPoll s P)) P' =
        (fst (AddPoll s P), Some (errors_New ''poll already exists'')) \<and>
      GetPoll (fst (AddPoll s P)) (Poll.PollID P) = (P\<lparr>Poll.Links := poll_Links\<rparr>, None)"
    by (simp add: AddPoll_conv [of s P] AddPoll_conv [of _ P'] GetPoll_conv update_conv')
  have w: "map_of s (votes_redisKeyFromId (VoteID V)) = None \<and>
    map_of s (voters_redisKeyFromId (Vote.VoterID V)) \<noteq> None \<and>
    map_of s (polls_redisKeyFromId (Vote.PollID V)) \<noteq> None \<and>
    VoteID V' = VoteID V \<longrightarrow>
      snd (AddVote s V) = None \<and>
      AddVote (fst (AddVote s V)) V' =
        (fst (AddVote s V), Some (errors_New ''vote already exists'')) \<and>
      GetVote (fst (AddVote s V)) (VoteID V) = (V\<lparr>Vote.Links := vote_Links\<rparr>, None)"
    by (simp add: AddVote_conv [of s V] AddVote_conv [of _ V'] GetVote_conv update_conv')
  show ?thesis using v p w by (intro conjI)
qed

theorem create_twice_AlreadyExists_witness:
  "snd (AddVoter [] ex_voter) = None \<and>
   AddVoter (fst (AddVoter [] ex_voter)) ex_voter =
     (fst (AddVoter [] ex_voter), Some (errors_New ''voter already exists'')) \<and>
   snd (AddPoll [] ex_poll) = None \<and>
   AddPoll (fst (AddPoll [] ex_poll)) ex_poll =
     (fst (AddPoll [] ex_poll), Some (errors_New ''poll already exists'')) \<and>
   snd (AddVote ex_store ex_vote) = None \<and>
   AddVote (fst (AddVote ex_store ex_vote)) ex_vote =
     (fst (AddVote ex_store ex_vote), Some (errors_New ''vote already exists''))"
  using create_twice_AlreadyExists [of "[]" ex_voter ex_voter ex_poll ex_poll ex_vote ex_vote]
    create_twice_AlreadyExists [of ex_store ex_voter ex_voter ex_poll ex_poll ex_vote ex_vote]
  by (simp add: key_defs ex_defs')

text \<open>
  Vote 11 is not yet present, but its voter 99 is missing: the first create fails with the
  reference error, and so does the second, which finds no vote 11 to object to.
\<close>

theorem create_twice_dangling_vote_counterexample:
  "map_of ex_store (votes_redisKeyFromId (VoteID ex_vote_dangling)) = None \<and>
   AddVote ex_store ex_vote_dangling =
     (ex_store, Some (errors_New ''voter does not exists'')) \<and>
   AddVote (fst (AddVote ex_store ex_vote_dangling)) ex_vote_dangling =
     (ex_store, Some (errors_New ''voter does not exists''))"
  by (simp add: AddVote_conv key_defs ex_defs)

section \<open>The history of a voter\<close>

lemma poll_index_None: "poll_index pid h = None \<longleftrightarrow> (\<forall>p \<in> set h. voterPoll.PollID p \<noteq> pid)"
  by (induction h) auto

lemma poll_index_Some:
  "poll_index pid h = Some i \<Longrightarrow>
     i < length h \<and> voterPoll.PollID (h ! i) = pid \<and> (\<forall>j < i. voterPoll.PollID (h ! j) \<noteq> pid)"
proof (induction h arbitrary: i)
  case Nil
  then show ?case by simp
next
  case (Cons p h)
  show ?case
  proof (cases "voterPoll.PollID p = pid")
    case True
    with Cons.prems show ?thesis by simp
  next
    case False
    with Cons.prems obtain i' where i': "poll_index pid h = Some i'" "i = Suc i'"
      by auto
    from Cons.IH [OF i'(1)] False i'(2) show ?thesis
      by (auto simp: nth_Cons less_Suc_eq_0_disj split: nat.splits)
  qed
qed

lemma poll_index_append:
  "poll_index pid (h @ [e]) =
     (case poll_index pid h of Some i \<Rightarrow> Some i
      | None \<Rightarrow> if voterPoll.PollID e = pid then Some (length h) else None)"
  by (induction h) (auto split: option.splits)

text \<open>
  C9.  \<open>AddVoterPoll\<close> and \<open>UpdateVoterPoll\<close> read \<open>requestVoter.VoteHistory[0]\<close> right
  after the check that the voter exists: they panic exactly when the voter exists and the
  request's history is empty, and for a missing voter they return the error whatever the
  request holds.
\<close>

theorem VoterPoll_request_index_panics:
  "(AddVoterPoll s voterId requestVoter = Panic \<longleftrightarrow>
      map_of s (voters_redisKeyFromId voterId) \<noteq> None \<and> VoteHistory requestVoter = []) \<and>
   (UpdateVoterPoll s voterId requestVoter = Panic \<longleftrightarrow>
      map_of s (voters_redisKeyFromId voterId) \<noteq> None \<and> VoteHistory requestVoter = []) \<and>
   (map_of s (voters_redisKeyFromId voterId) = None \<longrightarrow>
      AddVoterPoll s voterId requestVoter =
        Return (s, Some (errors_New ''voter does not exist'')) \<and>
      UpdateVoterPoll s voterId requestVoter =
        Return (s, Some (errors_New ''voter does not exist'')))"
  by (simp add: AddVoterPoll_conv UpdateVoterPoll_conv split: option.splits list.splits)

theorem VoterPoll_request_index_panics_witness:
  "AddVoterPoll ex_store 1 zero_Voter = Panic \<and>
   UpdateVoterPoll ex_store 1 zero_Voter = Panic \<and>
   AddVoterPoll ex_store 7 zero_Voter =
     Return (ex_store, Some (errors_New ''voter does not exist'')) \<and>
   UpdateVoterPoll ex_store 7 zero_Voter =
     Return (ex_store, Some (errors_New ''voter does not exist'')) \<and>
   AddVoterPoll ex_store 1 ex_request \<noteq> Panic \<and>
   UpdateVoterPoll ex_store 1 ex_request \<noteq> Panic"
  using VoterPoll_request_index_panics [of ex_store 1 zero_Voter]
    VoterPoll_request_index_panics [of ex_store 7 zero_Voter]
    VoterPoll_request_index_panics [of ex_store 1 ex_request]
  by (simp add: key_defs ex_defs' zero_Voter_def)

text \<open>
  C7, as amended.  \<open>AddVoterPoll\<close> scans the stored history for the poll id of the
  request's first entry before it appends.  For a missing voter it returns the
  voter-not-found error.  For a stored voter whose history already has an entry with that
  poll id, the call returns the already-exists error and the store unchanged, also when it
  is the first call.  For a voter stored under its own id (as every record that \<open>AddVoter\<close>
  and \<open>UpdateVoter\<close> write is) whose history has no entry with that poll id, the first call
  succeeds and stores the old history followed by the entry, and a second call with an
  entry of the same poll id returns the already-exists error and the store unchanged.
\<close>

theorem AddVoterPoll_twice:
  "(map_of s (voters_redisKeyFromId voterId) = None \<longrightarrow>
      AddVoterPoll s voterId r = Return (s, Some (errors_New ''voter does not exist''))) \<and>
   (map_of s (voters_redisKeyFromId voterId) = Some (VoterDoc voter) \<and>
    VoteHistory r = e # es \<and>
    (\<exists>p \<in> set (VoteHistory voter). voterPoll.PollID p = voterPoll.PollID e) \<longrightarrow>
      AddVoterPoll s voterId r =
        Return (s, Some (errors_New ''poll already exists in voter''))) \<and>
   (map_of s (voters_redisKeyFromId voterId) = Some (VoterDoc voter) \<and>
    Voter.VoterID voter = voterId \<and>
    VoteHistory r = e # es \<and> VoteHistory r' = e' # es' \<and>
    voterPoll.PollID e' = voterPoll.PollID e \<and>
    (\<forall>p \<in> set (VoteHistory voter). voterPoll.PollID p \<noteq> voterPoll.PollID e) \<longrightarrow>
      (\<exists>s1. AddVoterPoll s voterId r = Return (s1, None) \<and>
         s1 = AList.update (voters_redisKeyFromId voterId)
                (VoterDoc (voter\<lparr>VoteHistory := VoteHistory voter @ [e]\<rparr>)) s \<and>
         GetVoter s1 voterId = (voter\<lparr>VoteHistory := VoteHistory voter @ [e]\<rparr>, None) \<and>
         AddVoterPoll s1 voterId r' =
           Return (s1, Some (errors_New ''poll already exists in voter''))))"
proof -
  have a: "map_of s (voters_redisKeyFromId voterId) = None \<longrightarrow>
      AddVoterPoll s voterId r = Return (s, Some (errors_New ''voter does not exist''))"
    by (simp add: AddVoterPoll_conv)
  have d: "AddVoterPoll s voterId r =
        Return (s, Some (errors_New ''poll already exists in voter''))"
    if "map_of s (voters_redisKeyFromId voterId) = Some (VoterDoc voter)"
      "VoteHistory r = e # es"
      "\<exists>p \<in> set (VoteHistory voter). voterPoll.PollID p = voterPoll.PollID e"
    using that poll_index_None [of "voterPoll.PollID e" "VoteHistory voter"]
    by (simp add: AddVoterPoll_conv)
  have b: "\<exists>s1. AddVoterPoll s voterId r = Return (s1, None) \<and>
         s1 = AList.update (voters_redisKeyFromId voterId)
                (VoterDoc (voter\<lparr>VoteHistory := VoteHistory voter @ [e]\<rparr>)) s \<and>
         GetVoter s1 voterId = (voter\<lparr>VoteHistory := VoteHistory voter @ [e]\<rparr>, None) \<and>
         AddVoterPoll s1 voterId r' =
           Return (s1, Some (errors_New ''poll already exists in voter''))"
    if h: "map_of s (voters_redisKeyFromId voterId) = Some (VoterDoc voter)"
      "Voter.VoterID voter = voterId" "VoteHistory r = e # es" "VoteHistory r' = e' # es'"
      "voterPoll.PollID e' = voterPoll.PollID e"
      "\<forall>p \<in> set (VoteHistory voter). voterPoll.PollID p \<noteq> voterPoll.PollID e"
  proof -
    define s1 where "s1 = AList.update (voters_redisKeyFromId voterId)
                  (VoterDoc (voter\<lparr>VoteHistory := VoteHistory voter @ [e]\<rparr>)) s"
    from h(6) have fresh: "poll_index (voterPoll.PollID e) (VoteHistory voter) = None"
      by (simp add: poll_index_None)
    have r1: "AddVoterPoll s voterId r = Return (s1, None)"
      using h(1,2,3) fresh by (simp add: AddVoterPoll_conv UpdateVoter_conv s1_def)
    have m: "map_of s1 (voters_redisKeyFromId voterId) =
               Some (VoterDoc (voter\<lparr>VoteHistory := VoteHistory voter @ [e]\<rparr>))"
      by (simp add: s1_def update_conv')
    have g: "GetVoter s1 voterId = (voter\<lparr>VoteHistory := VoteHistory voter @ [e]\<rparr>, None)"
      by (simp add: GetVoter_conv m)
    have "poll_index (voterPoll.PollID e') (VoteHistory voter @ [e]) \<noteq> None"
      using h(5) by (simp add: poll_index_append split: option.splits)
    then have r2: "AddVoterPoll s1 voterId r' =
        Return (s1, Some (errors_New ''poll already exists in voter''))"
      by (simp add: AddVoterPoll_conv m h(4))
    from r1 g r2 s1_def show ?thesis by (intro exI conjI)
  qed
  from a b d show ?thesis by blast
qed

theorem AddVoterPoll_twice_witness:
  "AddVoterPoll ex_store 7 ex_request =
     Return (ex_store, Some (errors_New ''voter does not exist'')) \<and>
   AddVoterPoll ex_store 1 ex_request5 =
     Return (ex_store, Some (errors_New ''poll already exists in voter'')) \<and>
   AddVoterPoll ex_store 1 ex_request =
     Return ([(''voters:1'', VoterDoc (ex_voter\<lparr>VoteHistory := VoteHistory ex_voter @ VoteHistory ex_request\<rparr>)),
              (''polls:5'', PollDoc (ex_poll\<lparr>Poll.Links := poll_Links\<rparr>))], None) \<and>
   AddVoterPoll
     [(''voters:1'', VoterDoc (ex_voter\<lparr>VoteHistory := VoteHistory ex_voter @ VoteHistory ex_request\<rparr>)),
      (''polls:5'', PollDoc (ex_poll\<lparr>Poll.Links := poll_Links\<rparr>))] 1 ex_request =
     Return ([(''voters:1'', VoterDoc (ex_voter\<lparr>VoteHistory := VoteHistory ex_voter @ VoteHistory ex_request\<rparr>)),
              (''polls:5'', PollDoc (ex_poll\<lparr>Poll.Links := poll_Links\<rparr>))],
             Some (errors_New ''poll already exists in voter''))"
  using AddVoterPoll_twice [of ex_store 7 ex_request]
    AddVoterPoll_twice [of ex_store 1 ex_request5 ex_voter "\<lparr>voterPoll.PollID = 5, VoteDate = 400\<rparr>" "[]"]
    AddVoterPoll_twice [of ex_store 1 ex_request ex_voter
       "\<lparr>voterPoll.PollID = 6, VoteDate = 300\<rparr>" "[]" ex_request
       "\<lparr>voterPoll.PollID = 6, VoteDate = 300\<rparr>" "[]"]
  by (simp add: key_defs ex_defs' ex_request5_def)

text \<open>
  Voter 1 is created with an entry for poll 5 in its history.  The first \<open>AddVoterPoll\<close>
  with an entry for poll 5 does not succeed: it returns the already-exists error.
\<close>

theorem AddVoterPoll_existing_poll_counterexample:
  "AddVoter [] ex_voter = ([(''voters:1'', VoterDoc ex_voter)], None) \<and>
   map voterPoll.PollID (VoteHistory ex_voter) = [5] \<and>
   map voterPoll.PollID (VoteHistory ex_request5) = [5] \<and>
   AddVoterPoll (fst (AddVoter [] ex_voter)) 1 ex_request5 =
     Return ([(''voters:1'', VoterDoc ex_voter)],
             Some (errors_New ''poll already exists in voter''))"
  by (simp add: AddVoter_conv AddVoterPoll_conv key_defs ex_defs ex_request5_def)

lemma mset_butlast': "xs \<noteq> [] \<Longrightarrow> mset (butlast xs) = mset xs - {#last xs#}"
  by (induction xs) auto

lemma mset_butlast_swap:
  assumes "i < length h"
  shows "mset (butlast (h[i := last h])) = mset h - {#h ! i#}"
proof -
  from assms have ne: "h \<noteq> []" by auto
  have l: "last (h[i := last h]) = last h"
    using assms ne by (simp add: last_list_update)
  have ne': "h[i := last h] \<noteq> []" using ne by simp
  have "mset (butlast (h[i := last h])) = mset (h[i := last h]) - {#last h#}"
    using mset_butlast' [OF ne'] l by simp
  also have "mset (h[i := last h]) = add_mset (last h) (mset h - {#h ! i#})"
    using assms by (rule mset_update)
  finally show ?thesis by simp
qed

lemma distinct_butlast_swap:
  assumes "i < length h" "distinct (map f h)"
  shows "distinct (map f (butlast (h[i := last h])))" "f (h ! i) \<notin> f ` set (butlast (h[i := last h]))"
proof -
  let ?h' = "butlast (h[i := last h])"
  have sub: "{#h ! i#} \<subseteq># mset h" using assms(1) by simp
  have "image_mset f (mset ?h') = image_mset f (mset h - {#h ! i#})"
    using mset_butlast_swap [OF assms(1)] by simp
  also have "\<dots> = image_mset f (mset h) - {#f (h ! i)#}"
    using image_mset_Diff [OF sub, of f] by simp
  finally have m: "image_mset f (mset ?h') = image_mset f (mset h) - {#f (h ! i)#}" .
  have c: "count (image_mset f (mset ?h')) a \<le> count (image_mset f (mset h)) a" for a
    by (simp add: m)
  have "count (mset (map f h)) a = (if a \<in> set (map f h) then 1 else 0)" for a
    using assms(2) by (simp only: distinct_count_atmost_1)
  then have "count (mset (map f h)) a \<le> 1" for a
    by (simp del: mset_map)
  then have c1: "count (image_mset f (mset h)) a \<le> 1" for a
    by simp
  have c2: "count (mset (map f ?h')) a \<le> 1" for a
    using c [of a] c1 [of a] by simp
  show "distinct (map f ?h')"
    using c2
    by (metis count_greater_eq_one_iff count_mset_0_iff
    distinct_count_atmost_1 nle_le set_mset_mset)
  have "count (image_mset f (mset ?h')) (f (h ! i)) = 0"
    using c1 [of "f (h ! i)"] by (simp add: m)
  then show "f (h ! i) \<notin> f ` set ?h'"
    by (metis count_mset_0_iff list.set_map mset_map)
qed

text \<open>
  C6, as amended.  For a voter stored under its own id whose history has an entry with the
  poll id, \<open>DeleteVoterPoll\<close> succeeds and removes the first such entry: with \<open>i\<close> the
  least index of an entry with the poll id, the new history is the old one with the last
  entry written at \<open>i\<close> and then cut by one.  So it is one shorter, every other position
  below the new length keeps its entry, and as a multiset it is the old history minus the
  entry at \<open>i\<close>.  The poll id is gone from the history when the old history had no two
  entries with one poll id.  When no entry has the poll id the call returns the not-found
  error and the store unchanged.
\<close>

theorem DeleteVoterPoll_removes_first_entry:
  "(map_of s (voters_redisKeyFromId voterId) = Some (VoterDoc voter) \<and>
    Voter.VoterID voter = voterId \<and>
    (\<exists>p \<in> set (VoteHistory voter). voterPoll.PollID p = pollId) \<longrightarrow>
      (\<exists>i h'. i < length (VoteHistory voter) \<and>
         voterPoll.PollID (VoteHistory voter ! i) = pollId \<and>
         (\<forall>j < i. voterPoll.PollID (VoteHistory voter ! j) \<noteq> pollId) \<and>
         h' = butlast ((VoteHistory voter)[i := last (VoteHistory voter)]) \<and>
         DeleteVoterPoll s voterId pollId =
           (AList.update (voters_redisKeyFromId voterId)
              (VoterDoc (voter\<lparr>VoteHistory := h'\<rparr>)) s, None) \<and>
         GetVoter (fst (DeleteVoterPoll s voterId pollId)) voterId =
           (voter\<lparr>VoteHistory := h'\<rparr>, None) \<and>
         Suc (length h') = length (VoteHistory voter) \<and>
         (\<forall>j < length h'. h' ! j = (if j = i then last (VoteHistory voter)
                                      else VoteHistory voter ! j)) \<and>
         mset h' = mset (VoteHistory voter) - {#VoteHistory voter ! i#} \<and>
         (distinct (map voterPoll.PollID (VoteHistory voter)) \<longrightarrow>
            pollId \<notin> voterPoll.PollID ` set h'))) \<and>
   (map_of s (voters_redisKeyFromId voterId) = Some (VoterDoc voter) \<and>
    (\<forall>p \<in> set (VoteHistory voter). voterPoll.PollID p \<noteq> pollId) \<longrightarrow>
      DeleteVoterPoll s voterId pollId =
        (s, Some (errors_New ''poll does not exist in voter'')))"
proof -
  have a: "\<exists>i h'. i < length (VoteHistory voter) \<and>
         voterPoll.PollID (VoteHistory voter ! i) = pollId \<and>
         (\<forall>j < i. voterPoll.PollID (VoteHistory voter ! j) \<noteq> pollId) \<and>
         h' = butlast ((VoteHistory voter)[i := last (VoteHistory voter)]) \<and>
         DeleteVoterPoll s voterId pollId =
           (AList.update (voters_redisKeyFromId voterId)
              (VoterDoc (voter\<lparr>VoteHistory := h'\<rparr>)) s, None) \<and>
         GetVoter (fst (DeleteVoterPoll s voterId pollId)) voterId =
           (voter\<lparr>VoteHistory := h'\<rparr>, None) \<and>
         Suc (length h') = length (VoteHistory voter) \<and>
         (\<forall>j < length h'. h' ! j = (if j = i then last (VoteHistory voter)
                                      else VoteHistory voter ! j)) \<and>
         mset h' = mset (VoteHistory voter) - {#VoteHistory voter ! i#} \<and>
         (distinct (map voterPoll.PollID (VoteHistory voter)) \<longrightarrow>
            pollId \<notin> voterPoll.PollID ` set h')"
    if h: "map_of s (voters_redisKeyFromId voterId) = Some (VoterDoc voter)"
       "Voter.VoterID voter = voterId"
       "\<exists>p \<in> set (VoteHistory voter). voterPoll.PollID p = pollId"
  proof -
    define H where "H = VoteHistory voter"
    from h(3) obtain i where i: "poll_index pollId H = Some i"
      using poll_index_None [of pollId H] by (auto simp: H_def)
    note pi = poll_index_Some [OF i]
    define h' where "h' = butlast (H[i := last H])"
    have p1: "i < length H" using pi by simp
    have p2: "voterPoll.PollID (H ! i) = pollId" using pi by simp
    have p3: "\<forall>j < i. voterPoll.PollID (H ! j) \<noteq> pollId" using pi by simp
    have r: "DeleteVoterPoll s voterId pollId =
        (AList.update (voters_redisKeyFromId voterId) (VoterDoc (voter\<lparr>VoteHistory := h'\<rparr>)) s, None)"
      using h(1,2) i by (simp add: DeleteVoterPoll_conv UpdateVoter_conv h'_def H_def)
    have g: "GetVoter (fst (DeleteVoterPoll s voterId pollId)) voterId = (voter\<lparr>VoteHistory := h'\<rparr>, None)"
      by (simp add: r GetVoter_conv update_conv')
    have "length h' = length H - 1" by (simp add: h'_def)
    with p1 have len: "Suc (length h') = length H" by arith
    have nth: "\<forall>j < length h'. h' ! j = (if j = i then last H else H ! j)"
      by (simp add: h'_def nth_butlast nth_list_update)
    have ms: "mset h' = mset H - {#H ! i#}"
      unfolding h'_def using p1 by (rule mset_butlast_swap)
    have dd: "distinct (map voterPoll.PollID H) \<longrightarrow> pollId \<notin> voterPoll.PollID ` set h'"
      using distinct_butlast_swap(2) [of i H voterPoll.PollID] p1 p2 by (auto simp: h'_def)
    have "i < length H \<and>
         voterPoll.PollID (H ! i) = pollId \<and>
         (\<forall>j < i. voterPoll.PollID (H ! j) \<noteq> pollId) \<and>
         h' = butlast (H[i := last H]) \<and>
         DeleteVoterPoll s voterId pollId =
           (AList.update (voters_redisKeyFromId voterId)
              (VoterDoc (voter\<lparr>VoteHistory := h'\<rparr>)) s, None) \<and>
         GetVoter (fst (DeleteVoterPoll s voterId pollId)) voterId =
           (voter\<lparr>VoteHistory := h'\<rparr>, None) \<and>
         Suc (length h') = length H \<and>
         (\<forall>j < length h'. h' ! j = (if j = i then last H else H ! j)) \<and>
         mset h' = mset H - {#H ! i#} \<and>
         (distinct (map voterPoll.PollID H) \<longrightarrow> pollId \<notin> voterPoll.PollID ` set h')"
      using p1 p2 p3 r g len nth ms dd h'_def by (intro conjI)
    then show ?thesis unfolding H_def by (intro exI)
  qed
  have b: "DeleteVoterPoll s voterId pollId =
        (s, Some (errors_New ''poll does not exist in voter''))"
    if "map_of s (voters_redisKeyFromId voterId) = Some (VoterDoc voter)"
       "\<forall>p \<in> set (VoteHistory voter). voterPoll.PollID p \<noteq> pollId"
    using that poll_index_None [of pollId "VoteHistory voter"]
    by (simp add: DeleteVoterPoll_conv)
  from a b show ?thesis by blast
qed

theorem DeleteVoterPoll_removes_first_entry_witness:
  "DeleteVoterPoll ex_store4 4 5 =
     ([(''voters:4'', VoterDoc (ex_voter4\<lparr>VoteHistory :=
          [\<lparr>voterPoll.PollID = 4, VoteDate = 50\<rparr>,
           \<lparr>voterPoll.PollID = 5, VoteDate = 200\<rparr>,
           \<lparr>voterPoll.PollID = 6, VoteDate = 300\<rparr>]\<rparr>)),
       (''voters:5'', VoterDoc ex_voter5)], None) \<and>
   DeleteVoterPoll ex_store4 5 4 =
     ([(''voters:4'', VoterDoc ex_voter4),
       (''voters:5'', VoterDoc (ex_voter5\<lparr>VoteHistory :=
          [\<lparr>voterPoll.PollID = 6, VoteDate = 300\<rparr>,
           \<lparr>voterPoll.PollID = 5, VoteDate = 100\<rparr>]\<rparr>))], None) \<and>
   GetVoter (fst (DeleteVoterPoll ex_store4 5 4)) 5 =
     (ex_voter5\<lparr>VoteHistory :=
          [\<lparr>voterPoll.PollID = 6, VoteDate = 300\<rparr>,
           \<lparr>voterPoll.PollID = 5, VoteDate = 100\<rparr>]\<rparr>, None) \<and>
   DeleteVoterPoll ex_store4 5 9 = (ex_store4, Some (errors_New ''poll does not exist in voter''))"
  using DeleteVoterPoll_removes_first_entry [of ex_store4 4 ex_voter4 5]
    DeleteVoterPoll_removes_first_entry [of ex_store4 5 ex_voter5 4]
    DeleteVoterPoll_removes_first_entry [of ex_store4 5 ex_voter5 9]
  by (simp add: DeleteVoterPoll_conv UpdateVoter_conv GetVoter_conv key_defs
      ex_voter4_def ex_voter5_def ex_store4_def)

text \<open>
  With two entries for poll 5 in the history, \<open>DeleteVoterPoll\<close> removes the first and the
  second is still there.
\<close>

theorem DeleteVoterPoll_duplicate_counterexample:
  "DeleteVoterPoll (fst (AddVoter [] ex_voter_dup)) 2 5 =
     ([(''voters:2'', VoterDoc (ex_voter_dup\<lparr>VoteHistory := [\<lparr>voterPoll.PollID = 5, VoteDate = 200\<rparr>]\<rparr>))], None)"
  by (simp add: AddVoter_conv DeleteVoterPoll_conv UpdateVoter_conv key_defs ex_defs)

lemma set_update_subset: "set (AList.update k v s) \<subseteq> insert (k, v) (set s)"
  by (induction s) auto

lemma store_unique_update:
  "store_unique_polls s \<Longrightarrow> doc_unique_polls d \<Longrightarrow> store_unique_polls (AList.update k d s)"
  using set_update_subset [of k d s] by (auto simp: store_unique_polls_def list_all_iff)

lemma store_unique_lookup:
  "store_unique_polls s \<Longrightarrow> map_of s k = Some d \<Longrightarrow> unique_polls (unmarshal_Voter d)"
proof -
  assume a: "store_unique_polls s" and b: "map_of s k = Some d"
  from b have "(k, d) \<in> set s" by (rule map_of_SomeD)
  with a have "doc_unique_polls d" by (auto simp: store_unique_polls_def list_all_iff)
  then show ?thesis by (cases d) (simp_all add: unique_polls_def zero_Voter_def)
qed

lemma store_unique_UpdateVoter:
  "store_unique_polls s \<Longrightarrow> unique_polls voter \<Longrightarrow> store_unique_polls (fst (UpdateVoter s voter))"
  by (simp add: UpdateVoter_conv store_unique_update)

lemma unique_polls_append:
  "unique_polls v \<Longrightarrow> poll_index (voterPoll.PollID e) (VoteHistory v) = None \<Longrightarrow>
   unique_polls (v\<lparr>VoteHistory := VoteHistory v @ [e]\<rparr>)"
  by (auto simp: unique_polls_def poll_index_None)

lemma unique_polls_replace:
  assumes "unique_polls v" "poll_index (voterPoll.PollID e) (VoteHistory v) = Some i"
  shows "unique_polls (v\<lparr>VoteHistory := (VoteHistory v)[i := e]\<rparr>)"
proof -
  note pi = poll_index_Some [OF assms(2)]
  have "map voterPoll.PollID ((VoteHistory v)[i := e]) = (map voterPoll.PollID (VoteHistory v))[i := voterPoll.PollID e]"
    by (simp add: map_update)
  also have "\<dots> = map voterPoll.PollID (VoteHistory v)"
    using pi by (simp add: list_update_same_conv)
  finally show ?thesis using assms(1) by (simp add: unique_polls_def)
qed

lemma unique_polls_remove:
  assumes "unique_polls v" "poll_index pid (VoteHistory v) = Some i"
  shows "unique_polls (v\<lparr>VoteHistory := butlast ((VoteHistory v)[i := last (VoteHistory v)])\<rparr>)"
  using distinct_butlast_swap(1) [of i "VoteHistory v" voterPoll.PollID] poll_index_Some [OF assms(2)] assms(1)
  by (simp add: unique_polls_def)

text \<open>
  C4, as amended.  In a store whose voters all have at most one history entry per poll id,
  \<open>AddVoterPoll\<close>, \<open>UpdateVoterPoll\<close> and \<open>DeleteVoterPoll\<close> leave a store of that kind.
  \<open>AddVoter\<close> and \<open>UpdateVoter\<close> store the history they are given: when they succeed, the
  store is of that kind exactly when the given voter has at most one entry per poll id.
\<close>

theorem poll_edits_keep_unique_polls:
  "store_unique_polls s \<longrightarrow>
     (\<forall>s' e. AddVoterPoll s voterId r = Return (s', e) \<longrightarrow> store_unique_polls s') \<and>
     (\<forall>s' e. UpdateVoterPoll s voterId r = Return (s', e) \<longrightarrow> store_unique_polls s') \<and>
     store_unique_polls (fst (DeleteVoterPoll s voterId pollId)) \<and>
     (snd (AddVoter s voter) = None \<longrightarrow>
        (store_unique_polls (fst (AddVoter s voter)) \<longleftrightarrow> unique_polls voter)) \<and>
     (snd (UpdateVoter s voter) = None \<longrightarrow>
        (store_unique_polls (fst (UpdateVoter s voter)) \<longleftrightarrow> unique_polls voter))"
proof
  assume inv: "store_unique_polls s"
  have rd: "unique_polls (unmarshal_Voter d)" if "map_of s (voters_redisKeyFromId voterId) = Some d" for d
    using store_unique_lookup [OF inv that] .
  have a: "\<forall>s' e. AddVoterPoll s voterId r = Return (s', e) \<longrightarrow> store_unique_polls s'"
  proof (intro allI impI)
    fix s' e assume h: "AddVoterPoll s voterId r = Return (s', e)"
    show "store_unique_polls s'"
    proof (cases "map_of s (voters_redisKeyFromId voterId)")
      case None
      with h inv show ?thesis by (simp add: AddVoterPoll_conv)
    next
      case (Some d)
      show ?thesis
      proof (cases "VoteHistory r")
        case Nil
        with h Some show ?thesis by (simp add: AddVoterPoll_conv)
      next
        case (Cons q qs)
        show ?thesis
        proof (cases "poll_index (voterPoll.PollID q) (VoteHistory (unmarshal_Voter d))")
          case None
          have "unique_polls ((unmarshal_Voter d)\<lparr>VoteHistory := VoteHistory (unmarshal_Voter d) @ [q]\<rparr>)"
            using rd [OF Some] None by (rule unique_polls_append)
          from store_unique_UpdateVoter [OF inv this] h Some Cons None
          show ?thesis by (simp add: AddVoterPoll_conv)
        next
          case (Some i)
          with h \<open>map_of s (voters_redisKeyFromId voterId) = Some d\<close> Cons inv
          show ?thesis by (simp add: AddVoterPoll_conv)
        qed
      qed
    qed
  qed
  have b: "\<forall>s' e. UpdateVoterPoll s voterId r = Return (s', e) \<longrightarrow> store_unique_polls s'"
  proof (intro allI impI)
    fix s' e assume h: "UpdateVoterPoll s voterId r = Return (s', e)"
    show "store_unique_polls s'"
    proof (cases "map_of s (voters_redisKeyFromId voterId)")
      case None
      with h inv show ?thesis by (simp add: UpdateVoterPoll_conv)
    next
      case (Some d)
      show ?thesis
      proof (cases "VoteHistory r")
        case Nil
        with h Some show ?thesis by (simp add: UpdateVoterPoll_conv)
      next
        case (Cons q qs)
        show ?thesis
        proof (cases "poll_index (voterPoll.PollID q) (VoteHistory (unmarshal_Voter d))")
          case None
          with h Some Cons inv show ?thesis by (simp add: UpdateVoterPoll_conv)
        next
          case i: (Some i)
          have "unique_polls ((unmarshal_Voter d)\<lparr>VoteHistory := (VoteHistory (unmarshal_Voter d))[i := q]\<rparr>)"
            using rd [OF Some] i by (rule unique_polls_replace)
          from store_unique_UpdateVoter [OF inv this] h Some Cons i
          show ?thesis by (simp add: UpdateVoterPoll_conv)
        qed
      qed
    qed
  qed
  have c: "store_unique_polls (fst (DeleteVoterPoll s voterId pollId))"
  proof (cases "map_of s (voters_redisKeyFromId voterId)")
    case None
    with inv show ?thesis by (simp add: DeleteVoterPoll_conv)
  next
    case (Some d)
    show ?thesis
    proof (cases "poll_index pollId (VoteHistory (unmarshal_Voter d))")
      case None
      with Some inv show ?thesis by (simp add: DeleteVoterPoll_conv)
    next
      case i: (Some i)
      have "unique_polls ((unmarshal_Voter d)\<lparr>VoteHistory :=
              butlast ((VoteHistory (unmarshal_Voter d))[i := last (VoteHistory (unmarshal_Voter d))])\<rparr>)"
        using rd [OF Some] i by (rule unique_polls_remove)
      from store_unique_UpdateVoter [OF inv this] Some i
      show ?thesis by (simp add: DeleteVoterPoll_conv)
    qed
  qed
  have w: "unique_polls voter" if "store_unique_polls (AList.update k (VoterDoc voter) s)" for k
  proof -
    have "map_of (AList.update k (VoterDoc voter) s) k = Some (VoterDoc voter)"
      by (simp add: update_conv')
    from store_unique_lookup [OF that this] show ?thesis by simp
  qed
  have u: "store_unique_polls (AList.update k (VoterDoc voter) s) \<longleftrightarrow> unique_polls voter" for k
    using w [of k] store_unique_update [OF inv, of "VoterDoc voter" k] by auto
  have d: "snd (AddVoter s voter) = None \<longrightarrow>
        (store_unique_polls (fst (AddVoter s voter)) \<longleftrightarrow> unique_polls voter)"
    by (simp add: AddVoter_conv u)
  have e: "snd (UpdateVoter s voter) = None \<longrightarrow>
        (store_unique_polls (fst (UpdateVoter s voter)) \<longleftrightarrow> unique_polls voter)"
    by (simp add: UpdateVoter_conv u)
  from a b c d e show "(\<forall>s' e. AddVoterPoll s voterId r = Return (s', e) \<longrightarrow> store_unique_polls s') \<and>
     (\<forall>s' e. UpdateVoterPoll s voterId r = Return (s', e) \<longrightarrow> store_unique_polls s') \<and>
     store_unique_polls (fst (DeleteVoterPoll s voterId pollId)) \<and>
     (snd (AddVoter s voter) = None \<longrightarrow>
        (store_unique_polls (fst (AddVoter s voter)) \<longleftrightarrow> unique_polls voter)) \<and>
     (snd (UpdateVoter s voter) = None \<longrightarrow>
        (store_unique_polls (fst (UpdateVoter s voter)) \<longleftrightarrow> unique_polls voter))"
    by (intro conjI)
qed

theorem poll_edits_keep_unique_polls_witness:
  "store_unique_polls ex_store \<and>
   store_unique_polls (fst (DeleteVoterPoll ex_store 1 5)) \<and>
   AddVoterPoll ex_store 1 ex_request =
     Return (fst (UpdateVoter ex_store
                    (ex_voter\<lparr>VoteHistory := VoteHistory ex_voter @ VoteHistory ex_request\<rparr>)),
             None) \<and>
   store_unique_polls
     (fst (UpdateVoter ex_store
             (ex_voter\<lparr>VoteHistory := VoteHistory ex_voter @ VoteHistory ex_request\<rparr>))) \<and>
   UpdateVoterPoll ex_store 1 ex_voter = Return (fst (UpdateVoter ex_store ex_voter), None) \<and>
   snd (AddVoter ex_store ex_voter_dup) = None \<and>
   \<not> store_unique_polls (fst (AddVoter ex_store ex_voter_dup)) \<and>
   snd (UpdateVoter ex_store ex_voter) = None \<and>
   store_unique_polls (fst (UpdateVoter ex_store ex_voter))"
  using poll_edits_keep_unique_polls [of ex_store 1 ex_request 5 ex_voter_dup]
    poll_edits_keep_unique_polls [of ex_store 1 ex_voter 5 ex_voter]
  by (simp add: store_unique_polls_def unique_polls_def AddVoterPoll_conv UpdateVoterPoll_conv
        AddVoter_conv UpdateVoter_conv key_defs ex_defs')

text \<open>\<open>AddVoter\<close> stores a voter whose history has two entries for poll 5.\<close>

theorem AddVoter_duplicate_history_counterexample:
  "fst (AddVoter [] ex_voter_dup) = [(''voters:2'', VoterDoc ex_voter_dup)] \<and>
   map voterPoll.PollID (VoteHistory ex_voter_dup) = [5, 5]"
  by (simp add: AddVoter_conv key_defs ex_defs)

section \<open>Decoding into a slice\<close>

lemma ext_refl: "ext h h"
  by (simp add: ext_def)

lemma ext_trans: "ext h h1 \<Longrightarrow> ext h1 h2 \<Longrightarrow> ext h h2"
  by (auto simp: ext_def)

lemma valid_ext: "valid h v \<Longrightarrow> ext h h' \<Longrightarrow> valid h' v"
  by (auto simp: valid_def ext_def)

lemma valid_nil: "valid h nil_header"
  by (simp add: valid_def nil_header_def)

lemma length_slice_elems: "valid h v \<Longrightarrow> length (slice_elems h v) = len v"
  by (auto simp: valid_def slice_elems_def)

lemma ext_update: "a < length h \<Longrightarrow> ext h (h[a := (h ! a)[i := x]])"
  by (auto simp: ext_def nth_list_update)

lemma grow_slice_props:
  assumes "valid h v" "grow_slice z h v = (h1, v1)"
  shows "valid h1 v1" "ext h h1" "len v1 = len v" "cap v < cap v1"
    "h1 ! arr v1 = slice_elems h v @ replicate (cap v1 - len v) z"
proof -
  define newcap where "newcap = (if cap v + cap v div 2 < 4 then 4 else cap v + cap v div 2)"
  have nc: "cap v < newcap" by (simp add: newcap_def)
  from assms(2) have h1: "h1 = h @ [slice_elems h v @ replicate (newcap - len v) z]"
    and v1: "v1 = \<lparr>arr = length h, len = len v, cap = newcap\<rparr>"
    by (simp_all add: grow_slice_def newcap_def Let_def)
  have le: "len v \<le> cap v" using assms(1) by (simp add: valid_def)
  show "valid h1 v1"
    using le nc length_slice_elems [OF assms(1)] by (simp add: valid_def h1 v1)
  show "ext h h1" by (simp add: ext_def h1 nth_append)
  show "len v1 = len v" by (simp add: v1)
  show "cap v < cap v1" using nc by (simp add: v1)
  show "h1 ! arr v1 = slice_elems h v @ replicate (cap v1 - len v) z"
    by (simp add: h1 v1)
qed

lemma decode_elems_props:
  assumes "valid h v" "i \<le> len v" "decode_elems z h v i xs = (h', v')"
  shows "valid h' v' \<and> ext h h' \<and> len v' = max (len v) (i + length xs) \<and>
         take (i + length xs) (h' ! arr v') = take i (slice_elems h v) @ xs"
  using assms
proof (induction xs arbitrary: h v i)
  case Nil
  then show ?case
    by (auto simp: ext_refl slice_elems_def max_def)
next
  case (Cons x xs)
  obtain h1 v1 where g: "(if cap v \<le> i then grow_slice z h v else (h, v)) = (h1, v1)"
    by (cases "if cap v \<le> i then grow_slice z h v else (h, v)") auto
  define v2 where "v2 = (if len v1 \<le> i then v1\<lparr>len := i + 1\<rparr> else v1)"
  define h2 where "h2 = h1[arr v2 := (h1 ! arr v2)[i := x]]"
  from Cons.prems(3) g have rec: "decode_elems z h2 v2 (i + 1) xs = (h', v')"
    by (simp add: v2_def h2_def Let_def)
  have le: "len v \<le> cap v" using Cons.prems(1) by (simp add: valid_def)
  have p1: "valid h1 v1 \<and> ext h h1 \<and> len v1 = len v \<and> i < cap v1 \<and>
            take i (h1 ! arr v1) = take i (slice_elems h v)"
  proof (cases "cap v \<le> i")
    case True
    with g have gs: "grow_slice z h v = (h1, v1)" by simp
    note gp = grow_slice_props [OF Cons.prems(1) gs]
    have "i < cap v1" using True Cons.prems(2) le gp(4) by simp
    moreover have "take i (h1 ! arr v1) = take i (slice_elems h v)"
      using gp(5) Cons.prems(2) length_slice_elems [OF Cons.prems(1)] by simp
    ultimately show ?thesis using gp by simp
  next
    case False
    with g have e: "h1 = h" "v1 = v" by simp_all
    have "take i (h ! arr v) = take i (slice_elems h v)"
      using Cons.prems(2) by (auto simp: slice_elems_def min_def)
    with False e Cons.prems(1) show ?thesis by (simp add: ext_refl)
  qed
  have arr2: "arr v2 = arr v1" and cap2: "cap v2 = cap v1" and len2: "len v2 = max (len v1) (i + 1)"
    by (auto simp: v2_def)
  have c1: "0 < cap v1" using p1 by simp
  have a1: "arr v1 < length h1" and l1: "length (h1 ! arr v1) = cap v1"
    using p1 c1 by (auto simp: valid_def)
  have val2: "valid h2 v2"
    using p1 a1 l1 by (auto simp: valid_def h2_def arr2 cap2 len2)
  have e12: "ext h1 h2" unfolding h2_def arr2 using a1 by (rule ext_update)
  have i2: "i + 1 \<le> len v2" by (simp add: len2)
  note ih = Cons.IH [OF val2 i2 rec]
  have arr_h2: "h2 ! arr v2 = (h1 ! arr v1)[i := x]"
    using a1 by (simp add: h2_def arr2)
  have se2: "take (i + 1) (slice_elems h2 v2) = take i (slice_elems h v) @ [x]"
  proof -
    have "take (i + 1) (slice_elems h2 v2) = take (i + 1) ((h1 ! arr v1)[i := x])"
      using i2 by (auto simp: slice_elems_def arr_h2 min_def)
    also have "\<dots> = take i (h1 ! arr v1) @ [x]"
      using p1 l1 by (simp add: take_Suc_conv_app_nth)
    finally show ?thesis using p1 by simp
  qed
  have "ext h h'" using p1 e12 ih by (blast intro: ext_trans)
  moreover have "len v' = max (len v) (i + length (x # xs))"
    using ih p1 by (simp add: len2 max_def)
  moreover have "take (i + length (x # xs)) (h' ! arr v') = take i (slice_elems h v) @ x # xs"
    using ih se2 by simp
  ultimately show ?case using ih by simp
qed

lemma unmarshal_slice_props:
  assumes "valid h v" "unmarshal_slice z h v xs = (h', v')"
  shows "valid h' v'" "ext h h'" "slice_elems h' v' = xs" "len v' = length xs"
proof -
  have "valid h' v' \<and> ext h h' \<and> slice_elems h' v' = xs \<and> len v' = length xs"
  proof (cases "xs = []")
    case True
    with assms(2) show ?thesis
      by (auto simp: unmarshal_slice_def valid_def ext_refl slice_elems_def nil_header_def)
  next
    case False
    obtain h1 v1 where d: "decode_elems z h v 0 xs = (h1, v1)"
      by (cases "decode_elems z h v 0 xs") auto
    from decode_elems_props [OF assms(1) _ d]
    have p: "valid h1 v1" "ext h h1" "len v1 = max (len v) (length xs)"
      "take (length xs) (h1 ! arr v1) = xs" by simp_all
    from assms(2) d False have e: "h' = h1"
      "v' = (if length xs < len v1 then v1\<lparr>len := length xs\<rparr> else v1)"
      by (simp_all add: unmarshal_slice_def)
    have l: "len v' = length xs" using p(3) by (auto simp: e(2) max_def)
    have "valid h' v'" using p(1,3) by (auto simp: e valid_def)
    moreover have "slice_elems h' v' = xs"
      using p(4) l False by (auto simp: slice_elems_def e)
    ultimately show ?thesis using p(2) l e(1) by simp
  qed
  then show "valid h' v'" "ext h h'" "slice_elems h' v' = xs" "len v' = length xs"
    by simp_all
qed

text \<open>
  Decoding a list into a slice that holds that very list writes every cell with the value
  it has, and leaves the heap and the header as they are.
\<close>

lemma decode_elems_same:
  assumes "valid h v" "len v = i + length xs" "drop i (slice_elems h v) = xs"
  shows "decode_elems z h v i xs = (h, v)"
  using assms
proof (induction xs arbitrary: i)
  case Nil
  then show ?case by simp
next
  case (Cons x xs)
  have li: "i < len v" using Cons.prems(2) by simp
  then have ci: "i < cap v" and a: "arr v < length h" and l: "length (h ! arr v) = cap v"
    using Cons.prems(1) by (auto simp: valid_def)
  have se: "slice_elems h v = take (len v) (h ! arr v)"
    using li by (simp add: slice_elems_def)
  have "slice_elems h v ! i = x"
    using Cons.prems(3) li length_slice_elems [OF Cons.prems(1)]
    by (metis Cons_nth_drop_Suc list.inject)
  then have x: "(h ! arr v) ! i = x" using li by (simp add: se)
  have same: "h[arr v := (h ! arr v)[i := x]] = h"
    using x by (metis list_update_id)
  have d: "drop (i + 1) (slice_elems h v) = xs"
    using Cons.prems(3) by (metis Suc_eq_plus1 drop_Suc list.sel(3) tl_drop)
  have "len v = (i + 1) + length xs" using Cons.prems(2) by simp
  from Cons.IH [OF Cons.prems(1) this d] li ci same show ?case
    by simp
qed

lemma unmarshal_slice_same:
  assumes "valid h v" "slice_elems h v = xs" "xs \<noteq> []"
  shows "unmarshal_slice z h v xs = (h, v)"
proof -
  have "len v = length xs" using length_slice_elems [OF assms(1)] assms(2) by simp
  then have "decode_elems z h v 0 xs = (h, v)"
    using assms by (intro decode_elems_same) simp_all
  with \<open>len v = length xs\<close> assms(3) show ?thesis
    by (simp add: unmarshal_slice_def)
qed

text \<open>
  Decoding into a fresh variable, as every function but the three \<open>GetAll\<close> does, gives
  the record that \<open>unmarshal_Voter\<close>, \<open>unmarshal_Poll\<close> and \<open>unmarshal_Vote\<close> give.
\<close>

lemma voters_getItemFromRedis_into_fresh:
  "voters_getItemFromRedis s key =
     (case voters_getItemFromRedis_into s key ([], zero_Voter_mem) of
        Inl err \<Rightarrow> Inl err
      | Inr (h, m) \<Rightarrow> Inr (read_Voter h m))"
proof (cases "map_of s key")
  case None
  then show ?thesis
    by (simp add: voters_getItemFromRedis_def voters_getItemFromRedis_into_def JSONGet_def)
next
  case (Some d)
  have "read_Voter (fst (unmarshal_Voter_into ([], zero_Voter_mem) d))
          (snd (unmarshal_Voter_into ([], zero_Voter_mem) d)) = unmarshal_Voter d"
  proof (cases d)
    case (VoterDoc v)
    obtain h hist where u: "unmarshal_slice zero_voterPoll [] nil_header (VoteHistory v) = (h, hist)"
      by (cases "unmarshal_slice zero_voterPoll [] nil_header (VoteHistory v)") auto
    from unmarshal_slice_props(3) [OF valid_nil u] u VoterDoc show ?thesis
      by (simp add: zero_Voter_mem_def read_Voter_def)
  next
    case (PollDoc p)
    then show ?thesis
      by (simp add: zero_Voter_mem_def read_Voter_def zero_Voter_def slice_elems_def nil_header_def)
  next
    case (VoteDoc w)
    then show ?thesis
      by (simp add: zero_Voter_mem_def read_Voter_def zero_Voter_def slice_elems_def nil_header_def)
  qed
  with Some show ?thesis
    by (simp add: voters_getItemFromRedis_def voters_getItemFromRedis_into_def JSONGet_def
          case_prod_unfold)
qed

lemma polls_getItemFromRedis_into_fresh:
  "polls_getItemFromRedis s key =
     (case polls_getItemFromRedis_into s key (([], []), zero_Poll_mem) of
        Inl err \<Rightarrow> Inl err
      | Inr (h, m) \<Rightarrow> Inr (read_Poll h m))"
proof (cases "map_of s key")
  case None
  then show ?thesis
    by (simp add: polls_getItemFromRedis_def polls_getItemFromRedis_into_def JSONGet_def)
next
  case (Some d)
  have "read_Poll (fst (unmarshal_Poll_into (([], []), zero_Poll_mem) d))
          (snd (unmarshal_Poll_into (([], []), zero_Poll_mem) d)) = unmarshal_Poll d"
  proof (cases d)
    case (PollDoc p)
    obtain ho opts where u1: "unmarshal_slice zero_pollOption [] nil_header (PollOptions p) = (ho, opts)"
      by (cases "unmarshal_slice zero_pollOption [] nil_header (PollOptions p)") auto
    obtain hl links where u2: "unmarshal_slice [] [] nil_header (Poll.Links p) = (hl, links)"
      by (cases "unmarshal_slice [] [] nil_header (Poll.Links p)") auto
    from unmarshal_slice_props(3) [OF valid_nil u1] unmarshal_slice_props(3) [OF valid_nil u2]
      u1 u2 PollDoc show ?thesis
      by (simp add: zero_Poll_mem_def read_Poll_def)
  next
    case (VoterDoc v)
    then show ?thesis
      by (simp add: zero_Poll_mem_def read_Poll_def zero_Poll_def slice_elems_def nil_header_def)
  next
    case (VoteDoc w)
    obtain hl links where u2: "unmarshal_slice [] [] nil_header (Vote.Links w) = (hl, links)"
      by (cases "unmarshal_slice [] [] nil_header (Vote.Links w)") auto
    from unmarshal_slice_props(3) [OF valid_nil u2] u2 VoteDoc show ?thesis
      by (simp add: zero_Poll_mem_def read_Poll_def zero_Poll_def slice_elems_def [of "[]"] nil_header_def)
  qed
  with Some show ?thesis
    by (simp add: polls_getItemFromRedis_def polls_getItemFromRedis_into_def JSONGet_def
          case_prod_unfold)
qed

lemma votes_getItemFromRedis_into_fresh:
  "votes_getItemFromRedis s key =
     (case votes_getItemFromRedis_into s key ([], zero_Vote_mem) of
        Inl err \<Rightarrow> Inl err
      | Inr (h, m) \<Rightarrow> Inr (read_Vote h m))"
proof (cases "map_of s key")
  case None
  then show ?thesis
    by (simp add: votes_getItemFromRedis_def votes_getItemFromRedis_into_def JSONGet_def)
next
  case (Some d)
  have "read_Vote (fst (unmarshal_Vote_into ([], zero_Vote_mem) d))
          (snd (unmarshal_Vote_into ([], zero_Vote_mem) d)) = unmarshal_Vote d"
  proof (cases d)
    case (VoteDoc w)
    obtain h links where u: "unmarshal_slice [] [] nil_header (Vote.Links w) = (h, links)"
      by (cases "unmarshal_slice [] [] nil_header (Vote.Links w)") auto
    from unmarshal_slice_props(3) [OF valid_nil u] u VoteDoc show ?thesis
      by (simp add: zero_Vote_mem_def read_Vote_def)
  next
    case (VoterDoc v)
    then show ?thesis
      by (simp add: zero_Vote_mem_def read_Vote_def zero_Vote_def slice_elems_def nil_header_def)
  next
    case (PollDoc p)
    obtain h links where u: "unmarshal_slice [] [] nil_header (Poll.Links p) = (h, links)"
      by (cases "unmarshal_slice [] [] nil_header (Poll.Links p)") auto
    from unmarshal_slice_props(3) [OF valid_nil u] u PollDoc show ?thesis
      by (simp add: zero_Vote_mem_def read_Vote_def zero_Vote_def)
  qed
  with Some show ?thesis
    by (simp add: votes_getItemFromRedis_def votes_getItemFromRedis_into_def JSONGet_def
          case_prod_unfold)
qed

section \<open>Listing a namespace\<close>

lemma slice_list_append: "slice_list (append_slice l x) = slice_list l @ [x]"
  by (cases l) simp_all

lemma append_slice_not_Nil: "append_slice l x \<noteq> Nil_slice"
  by (cases l) simp_all

lemma slice_list_map: "slice_list (map_slice f l) = map f (slice_list l)"
  by (cases l) simp_all

lemma map_slice_Nil_iff: "map_slice f l = Nil_slice \<longleftrightarrow> l = Nil_slice"
  by (cases l) simp_all

lemma len_slice_conv: "len_slice l = length (slice_list l)"
  by (cases l) simp_all

lemma slice_conv: "l \<noteq> Nil_slice \<Longrightarrow> l = Slice (slice_list l)"
  by (cases l) simp_all

lemma scan_keys_props:
  fixes get :: "string \<Rightarrow> 'h \<times> 'm \<Rightarrow> error + 'h \<times> 'm"
  assumes step: "\<And>key h m. key \<in> set ks \<Longrightarrow> I h m \<Longrightarrow>
            \<exists>h' m'. get key (h, m) = Inr (h', m') \<and> I h' m' \<and> E h h' \<and>
                    G h' m' (D key) \<and> R h' m' (D key)"
    and mono: "\<And>h h' c d. G h c d \<Longrightarrow> E h h' \<Longrightarrow> G h' c d"
    and inv: "I h m"
    and acc: "list_all2 (G h) (slice_list l) ds"
  shows "\<exists>h' l'. scan_keys get ks (h, m) l = Inr (h', l') \<and>
            list_all2 (G h') (slice_list l') (ds @ map D ks) \<and>
            (ks = [] \<longrightarrow> l' = l) \<and>
            (ks \<noteq> [] \<longrightarrow> l' \<noteq> Nil_slice \<and> R h' (last (slice_list l')) (D (last ks)))"
  using step inv acc
proof (induction ks arbitrary: h m l ds)
  case Nil
  then show ?case by simp
next
  case (Cons key ks)
  from Cons.prems(1) [of key h m] Cons.prems(2)
  obtain h1 m1 where g: "get key (h, m) = Inr (h1, m1)" and i1: "I h1 m1" and e1: "E h h1"
    and g1: "G h1 m1 (D key)" and r1: "R h1 m1 (D key)"
    by auto
  have acc1: "list_all2 (G h1) (slice_list (append_slice l m1)) (ds @ [D key])"
  proof -
    have "list_all2 (G h1) (slice_list l) ds"
      using Cons.prems(3) mono e1 by (auto elim!: list_all2_mono)
    then show ?thesis using g1 by (simp add: slice_list_append list_all2_appendI)
  qed
  have step': "\<And>key h m. key \<in> set ks \<Longrightarrow> I h m \<Longrightarrow>
            \<exists>h' m'. get key (h, m) = Inr (h', m') \<and> I h' m' \<and> E h h' \<and>
                    G h' m' (D key) \<and> R h' m' (D key)"
    using Cons.prems(1) by simp
  from Cons.IH [OF step' i1 acc1]
  obtain h' l' where r: "scan_keys get ks (h1, m1) (append_slice l m1) = Inr (h', l')"
    and a: "list_all2 (G h') (slice_list l') ((ds @ [D key]) @ map D ks)"
    and n: "ks = [] \<longrightarrow> l' = append_slice l m1"
    and c: "ks \<noteq> [] \<longrightarrow> l' \<noteq> Nil_slice \<and> R h' (last (slice_list l')) (D (last ks))"
    by blast
  have s: "scan_keys get (key # ks) (h, m) l = Inr (h', l')"
    using g r by simp
  have "l' \<noteq> Nil_slice \<and> R h' (last (slice_list l')) (D (last (key # ks)))"
  proof (cases "ks = []")
    case True
    with n have l': "l' = append_slice l m1" by simp
    from True r have "h' = h1" by simp
    with l' r1 True show ?thesis by (simp add: slice_list_append append_slice_not_Nil)
  next
    case False
    with c show ?thesis by simp
  qed
  with s a show ?case by simp
qed

lemma list_all2_map_eq:
  "list_all2 (\<lambda>c d. f c = g d) cs ds \<Longrightarrow> map f cs = map g ds"
  by (induction rule: list_all2_induct) simp_all

lemma Keys_found: "key \<in> set (Keys s pfx) \<Longrightarrow> map_of s key \<noteq> None"
  by (auto simp: Keys_def map_of_eq_None_iff)

lemma map_filter_found:
  "\<forall>key \<in> set ks. map_of s key \<noteq> None \<Longrightarrow>
   List.map_filter (map_of s) ks = map (\<lambda>key. the (map_of s key)) ks"
  by (induction ks) (auto simp: List.map_filter_simps)

lemma stored_docs_conv: "stored_docs s pfx = map (\<lambda>key. the (map_of s key)) (Keys s pfx)"
  unfolding stored_docs_def by (rule map_filter_found) (simp add: Keys_found)

lemma docs_of_keys:
  assumes "list_all P (stored_docs s pfx)" "key \<in> set (Keys s pfx)"
  shows "\<exists>d. map_of s key = Some d \<and> P d"
proof -
  from assms(2) obtain d where d: "map_of s key = Some d"
    using Keys_found by fastforce
  from assms have "P (the (map_of s key))"
    by (simp add: stored_docs_conv list_all_iff)
  with d show ?thesis by simp
qed

lemma GetAllVoters_scan:
  assumes "list_all is_VoterDoc (stored_docs s voters_RedisKeyPrefix)"
  shows "\<exists>h l. scan_keys (voters_getItemFromRedis_into s) (Keys s voters_RedisKeyPrefix)
              ([], zero_Voter_mem) Nil_slice = Inr (h, l) \<and>
           map voter_shape (map (read_Voter h) (slice_list l)) = map voter_shape (stored_voters s) \<and>
           (Keys s voters_RedisKeyPrefix = [] \<longrightarrow> l = Nil_slice) \<and>
           (Keys s voters_RedisKeyPrefix \<noteq> [] \<longrightarrow>
              l \<noteq> Nil_slice \<and> read_Voter h (last (slice_list l)) = last (stored_voters s))"
proof -
  let ?ks = "Keys s voters_RedisKeyPrefix"
  define I where "I = (\<lambda>(h :: voterPoll heap) (m :: Voter_mem). valid h (m_VoteHistory m))"
  define G where "G = (\<lambda>(h :: voterPoll heap) (c :: Voter_mem) d. valid h (m_VoteHistory c) \<and>
      (Voter_mem.m_VoterID c, m_FirstName c, m_LastName c, len (m_VoteHistory c)) =
        voter_shape (unmarshal_Voter d))"
  define R where "R = (\<lambda>(h :: voterPoll heap) (c :: Voter_mem) d. read_Voter h c = unmarshal_Voter d)"
  define D where "D = (\<lambda>key. the (map_of s key))"
  have step: "\<exists>h' m'. voters_getItemFromRedis_into s key (h, m) = Inr (h', m') \<and> I h' m' \<and>
      ext h h' \<and> G h' m' (D key) \<and> R h' m' (D key)"
    if k: "key \<in> set ?ks" and i: "I h m" for key h m
  proof -
    from docs_of_keys [OF assms k] obtain v where v: "map_of s key = Some (VoterDoc v)"
      by (metis is_VoterDoc.elims(2))
    obtain h' hist where u: "unmarshal_slice zero_voterPoll h (m_VoteHistory m) (VoteHistory v) = (h', hist)"
      by (cases "unmarshal_slice zero_voterPoll h (m_VoteHistory m) (VoteHistory v)") auto
    from i have "valid h (m_VoteHistory m)" by (simp add: I_def)
    note p = unmarshal_slice_props [OF this u]
    have "voters_getItemFromRedis_into s key (h, m) =
        Inr (h', \<lparr>Voter_mem.m_VoterID = Voter.VoterID v, m_FirstName = FirstName v, m_LastName = LastName v,
                  m_VoteHistory = hist\<rparr>)"
      by (simp add: voters_getItemFromRedis_into_def JSONGet_def v u)
    then show ?thesis
      using p by (simp add: I_def G_def R_def D_def v voter_shape_def read_Voter_def)
  qed
  have mono: "G h c d \<Longrightarrow> ext h h' \<Longrightarrow> G h' c d" for h h' c d
    by (auto simp: G_def intro: valid_ext)
  have inv: "I [] zero_Voter_mem"
    by (simp add: I_def zero_Voter_mem_def valid_nil)
  have acc: "list_all2 (G []) (slice_list Nil_slice) []" by simp
  have "\<exists>h l. scan_keys (voters_getItemFromRedis_into s) ?ks ([], zero_Voter_mem) Nil_slice = Inr (h, l) \<and>
            list_all2 (G h) (slice_list l) ([] @ map D ?ks) \<and>
            (?ks = [] \<longrightarrow> l = Nil_slice) \<and>
            (?ks \<noteq> [] \<longrightarrow> l \<noteq> Nil_slice \<and> R h (last (slice_list l)) (D (last ?ks)))"
  proof (rule scan_keys_props [where I = I and E = ext])
    show "\<exists>h' m'. voters_getItemFromRedis_into s key (h, m) = Inr (h', m') \<and> I h' m' \<and>
      ext h h' \<and> G h' m' (D key) \<and> R h' m' (D key)"
      if "key \<in> set ?ks" "I h m" for key h m
      using that by (rule step)
    show "G h' c d" if "G h c d" "ext h h'" for h h' c d
      using that by (rule mono)
    show "I [] zero_Voter_mem" by (rule inv)
    show "list_all2 (G []) (slice_list Nil_slice) []" by (rule acc)
  qed
  then obtain h l where r: "scan_keys (voters_getItemFromRedis_into s) ?ks ([], zero_Voter_mem) Nil_slice = Inr (h, l)"
    and a: "list_all2 (G h) (slice_list l) (map D ?ks)"
    and n: "?ks = [] \<longrightarrow> l = Nil_slice"
    and c: "?ks \<noteq> [] \<longrightarrow> l \<noteq> Nil_slice \<and> R h (last (slice_list l)) (D (last ?ks))"
    by auto
  have sv: "stored_voters s = map unmarshal_Voter (map D ?ks)"
    by (simp add: stored_voters_def stored_docs_conv D_def)
  have "list_all2 (\<lambda>c d. voter_shape (read_Voter h c) = voter_shape (unmarshal_Voter d)) (slice_list l) (map D ?ks)"
    using a by (rule list_all2_mono) (auto simp: G_def voter_shape_def read_Voter_def length_slice_elems)
  then have m: "map voter_shape (map (read_Voter h) (slice_list l)) = map voter_shape (stored_voters s)"
    using list_all2_map_eq [of "\<lambda>c. voter_shape (read_Voter h c)" "\<lambda>d. voter_shape (unmarshal_Voter d)"]
    by (simp add: sv comp_def)
  have "?ks \<noteq> [] \<longrightarrow> read_Voter h (last (slice_list l)) = last (stored_voters s)"
    using c by (simp add: R_def sv last_map)
  with r m n c show ?thesis by blast
qed

lemma GetAllPolls_scan:
  assumes "list_all is_PollDoc (stored_docs s polls_RedisKeyPrefix)"
  shows "\<exists>h l. scan_keys (polls_getItemFromRedis_into s) (Keys s polls_RedisKeyPrefix)
              (([], []), zero_Poll_mem) Nil_slice = Inr (h, l) \<and>
           map poll_shape (map (read_Poll h) (slice_list l)) = map poll_shape (stored_polls s) \<and>
           (Keys s polls_RedisKeyPrefix = [] \<longrightarrow> l = Nil_slice) \<and>
           (Keys s polls_RedisKeyPrefix \<noteq> [] \<longrightarrow>
              l \<noteq> Nil_slice \<and> read_Poll h (last (slice_list l)) = last (stored_polls s))"
proof -
  let ?ks = "Keys s polls_RedisKeyPrefix"
  define I where "I = (\<lambda>(h :: pollOption heap \<times> string heap) (m :: Poll_mem).
      valid (fst h) (m_PollOptions m) \<and> valid (snd h) (Poll_mem.m_Links m))"
  define E where "E = (\<lambda>(h :: pollOption heap \<times> string heap) h'.
      ext (fst h) (fst h') \<and> ext (snd h) (snd h'))"
  define G where "G = (\<lambda>(h :: pollOption heap \<times> string heap) (c :: Poll_mem) d.
      valid (fst h) (m_PollOptions c) \<and> valid (snd h) (Poll_mem.m_Links c) \<and>
      (Poll_mem.m_PollID c, m_PollTitle c, m_PollQuestion c, len (m_PollOptions c),
       len (Poll_mem.m_Links c)) = poll_shape (unmarshal_Poll d))"
  define R where "R = (\<lambda>(h :: pollOption heap \<times> string heap) (c :: Poll_mem) d.
      read_Poll h c = unmarshal_Poll d)"
  define D where "D = (\<lambda>key. the (map_of s key))"
  have step: "\<exists>h' m'. polls_getItemFromRedis_into s key (h, m) = Inr (h', m') \<and> I h' m' \<and>
      E h h' \<and> G h' m' (D key) \<and> R h' m' (D key)"
    if k: "key \<in> set ?ks" and i: "I h m" for key h m
  proof -
    obtain ho hl where h: "h = (ho, hl)" by (cases h)
    from docs_of_keys [OF assms k] obtain p where p: "map_of s key = Some (PollDoc p)"
      by (metis is_PollDoc.elims(2))
    obtain ho' opts where
      u1: "unmarshal_slice zero_pollOption ho (m_PollOptions m) (PollOptions p) = (ho', opts)"
      by (cases "unmarshal_slice zero_pollOption ho (m_PollOptions m) (PollOptions p)") auto
    obtain hl' links where
      u2: "unmarshal_slice [] hl (Poll_mem.m_Links m) (Poll.Links p) = (hl', links)"
      by (cases "unmarshal_slice [] hl (Poll_mem.m_Links m) (Poll.Links p)") auto
    from i have v1: "valid ho (m_PollOptions m)" and v2: "valid hl (Poll_mem.m_Links m)"
      by (simp_all add: I_def h)
    note p1 = unmarshal_slice_props [OF v1 u1]
    note p2 = unmarshal_slice_props [OF v2 u2]
    have "polls_getItemFromRedis_into s key (h, m) =
        Inr ((ho', hl'), \<lparr>Poll_mem.m_PollID = Poll.PollID p, m_PollTitle = PollTitle p,
           m_PollQuestion = PollQuestion p, m_PollOptions = opts, Poll_mem.m_Links = links\<rparr>)"
      by (simp add: polls_getItemFromRedis_into_def JSONGet_def p h u1 u2)
    then show ?thesis
      using p1 p2 by (simp add: I_def E_def G_def R_def D_def p h poll_shape_def read_Poll_def)
  qed
  have mono: "G h c d \<Longrightarrow> E h h' \<Longrightarrow> G h' c d" for h h' c d
    by (auto simp: G_def E_def intro: valid_ext)
  have inv: "I ([], []) zero_Poll_mem"
    by (simp add: I_def zero_Poll_mem_def valid_nil)
  have acc: "list_all2 (G ([], [])) (slice_list Nil_slice) []" by simp
  have "\<exists>h l. scan_keys (polls_getItemFromRedis_into s) ?ks (([], []), zero_Poll_mem) Nil_slice = Inr (h, l) \<and>
            list_all2 (G h) (slice_list l) ([] @ map D ?ks) \<and>
            (?ks = [] \<longrightarrow> l = Nil_slice) \<and>
            (?ks \<noteq> [] \<longrightarrow> l \<noteq> Nil_slice \<and> R h (last (slice_list l)) (D (last ?ks)))"
  proof (rule scan_keys_props [where I = I and E = E])
    show "\<exists>h' m'. polls_getItemFromRedis_into s key (h, m) = Inr (h', m') \<and> I h' m' \<and>
      E h h' \<and> G h' m' (D key) \<and> R h' m' (D key)"
      if "key \<in> set ?ks" "I h m" for key h m
      using that by (rule step)
    show "G h' c d" if "G h c d" "E h h'" for h h' c d
      using that by (rule mono)
    show "I ([], []) zero_Poll_mem" by (rule inv)
    show "list_all2 (G ([], [])) (slice_list Nil_slice) []" by (rule acc)
  qed
  then obtain h l where r: "scan_keys (polls_getItemFromRedis_into s) ?ks (([], []), zero_Poll_mem) Nil_slice = Inr (h, l)"
    and a: "list_all2 (G h) (slice_list l) (map D ?ks)"
    and n: "?ks = [] \<longrightarrow> l = Nil_slice"
    and c: "?ks \<noteq> [] \<longrightarrow> l \<noteq> Nil_slice \<and> R h (last (slice_list l)) (D (last ?ks))"
    by auto
  have sv: "stored_polls s = map unmarshal_Poll (map D ?ks)"
    by (simp add: stored_polls_def stored_docs_conv D_def)
  have "list_all2 (\<lambda>c d. poll_shape (read_Poll h c) = poll_shape (unmarshal_Poll d)) (slice_list l) (map D ?ks)"
    using a by (rule list_all2_mono) (auto simp: G_def poll_shape_def read_Poll_def length_slice_elems)
  then have m: "map poll_shape (map (read_Poll h) (slice_list l)) = map poll_shape (stored_polls s)"
    using list_all2_map_eq [of "\<lambda>c. poll_shape (read_Poll h c)" "\<lambda>d. poll_shape (unmarshal_Poll d)"]
    by (simp add: sv comp_def)
  have "?ks \<noteq> [] \<longrightarrow> read_Poll h (last (slice_list l)) = last (stored_polls s)"
    using c by (simp add: R_def sv last_map)
  with r m n c show ?thesis by blast
qed

lemma GetAllVotes_scan:
  assumes "list_all is_VoteDoc (stored_docs s votes_RedisKeyPrefix)"
  shows "\<exists>h l. scan_keys (votes_getItemFromRedis_into s) (Keys s votes_RedisKeyPrefix)
              ([], zero_Vote_mem) Nil_slice = Inr (h, l) \<and>
           map vote_shape (map (read_Vote h) (slice_list l)) = map vote_shape (stored_votes s) \<and>
           (Keys s votes_RedisKeyPrefix = [] \<longrightarrow> l = Nil_slice) \<and>
           (Keys s votes_RedisKeyPrefix \<noteq> [] \<longrightarrow>
              l \<noteq> Nil_slice \<and> read_Vote h (last (slice_list l)) = last (stored_votes s))"
proof -
  let ?ks = "Keys s votes_RedisKeyPrefix"
  define I where "I = (\<lambda>(h :: string heap) (m :: Vote_mem). valid h (Vote_mem.m_Links m))"
  define G where "G = (\<lambda>(h :: string heap) (c :: Vote_mem) d. valid h (Vote_mem.m_Links c) \<and>
      (m_VoteID c, Vote_mem.m_VoterID c, Vote_mem.m_PollID c, m_VoteValue c,
       len (Vote_mem.m_Links c)) = vote_shape (unmarshal_Vote d))"
  define R where "R = (\<lambda>(h :: string heap) (c :: Vote_mem) d. read_Vote h c = unmarshal_Vote d)"
  define D where "D = (\<lambda>key. the (map_of s key))"
  have step: "\<exists>h' m'. votes_getItemFromRedis_into s key (h, m) = Inr (h', m') \<and> I h' m' \<and>
      ext h h' \<and> G h' m' (D key) \<and> R h' m' (D key)"
    if k: "key \<in> set ?ks" and i: "I h m" for key h m
  proof -
    from docs_of_keys [OF assms k] obtain w where w: "map_of s key = Some (VoteDoc w)"
      by (metis is_VoteDoc.elims(2))
    obtain h' links where u: "unmarshal_slice [] h (Vote_mem.m_Links m) (Vote.Links w) = (h', links)"
      by (cases "unmarshal_slice [] h (Vote_mem.m_Links m) (Vote.Links w)") auto
    from i have "valid h (Vote_mem.m_Links m)" by (simp add: I_def)
    note p = unmarshal_slice_props [OF this u]
    have "votes_getItemFromRedis_into s key (h, m) =
        Inr (h', \<lparr>m_VoteID = VoteID w, Vote_mem.m_VoterID = Vote.VoterID w,
                Vote_mem.m_PollID = Vote.PollID w, m_VoteValue = VoteValue w,
                Vote_mem.m_Links = links\<rparr>)"
      by (simp add: votes_getItemFromRedis_into_def JSONGet_def w u)
    then show ?thesis
      using p by (simp add: I_def G_def R_def D_def w vote_shape_def read_Vote_def)
  qed
  have mono: "G h c d \<Longrightarrow> ext h h' \<Longrightarrow> G h' c d" for h h' c d
    by (auto simp: G_def intro: valid_ext)
  have inv: "I [] zero_Vote_mem"
    by (simp add: I_def zero_Vote_mem_def valid_nil)
  have acc: "list_all2 (G []) (slice_list Nil_slice) []" by simp
  have "\<exists>h l. scan_keys (votes_getItemFromRedis_into s) ?ks ([], zero_Vote_mem) Nil_slice = Inr (h, l) \<and>
            list_all2 (G h) (slice_list l) ([] @ map D ?ks) \<and>
            (?ks = [] \<longrightarrow> l = Nil_slice) \<and>
            (?ks \<noteq> [] \<longrightarrow> l \<noteq> Nil_slice \<and> R h (last (slice_list l)) (D (last ?ks)))"
  proof (rule scan_keys_props [where I = I and E = ext])
    show "\<exists>h' m'. votes_getItemFromRedis_into s key (h, m) = Inr (h', m') \<and> I h' m' \<and>
      ext h h' \<and> G h' m' (D key) \<and> R h' m' (D key)"
      if "key \<in> set ?ks" "I h m" for key h m
      using that by (rule step)
    show "G h' c d" if "G h c d" "ext h h'" for h h' c d
      using that by (rule mono)
    show "I [] zero_Vote_mem" by (rule inv)
    show "list_all2 (G []) (slice_list Nil_slice) []" by (rule acc)
  qed
  then obtain h l where r: "scan_keys (votes_getItemFromRedis_into s) ?ks ([], zero_Vote_mem) Nil_slice = Inr (h, l)"
    and a: "list_all2 (G h) (slice_list l) (map D ?ks)"
    and n: "?ks = [] \<longrightarrow> l = Nil_slice"
    and c: "?ks \<noteq> [] \<longrightarrow> l \<noteq> Nil_slice \<and> R h (last (slice_list l)) (D (last ?ks))"
    by auto
  have sv: "stored_votes s = map unmarshal_Vote (map D ?ks)"
    by (simp add: stored_votes_def stored_docs_conv D_def)
  have "list_all2 (\<lambda>c d. vote_shape (read_Vote h c) = vote_shape (unmarshal_Vote d)) (slice_list l) (map D ?ks)"
    using a by (rule list_all2_mono) (auto simp: G_def vote_shape_def read_Vote_def length_slice_elems)
  then have m: "map vote_shape (map (read_Vote h) (slice_list l)) = map vote_shape (stored_votes s)"
    using list_all2_map_eq [of "\<lambda>c. vote_shape (read_Vote h c)" "\<lambda>d. vote_shape (unmarshal_Vote d)"]
    by (simp add: sv comp_def)
  have "?ks \<noteq> [] \<longrightarrow> read_Vote h (last (slice_list l)) = last (stored_votes s)"
    using c by (simp add: R_def sv last_map)
  with r m n c show ?thesis by blast
qed

text \<open>
  When every stored vote has the fixed list of links, every decoding after the first
  leaves the heap as it is, and the scan returns the stored votes themselves.
\<close>

lemma GetAllVotes_fixed_links:
  assumes docs: "list_all is_VoteDoc (stored_docs s votes_RedisKeyPrefix)"
    and links: "list_all (\<lambda>w. Vote.Links w = vote_Links) (stored_votes s)"
    and keys: "Keys s votes_RedisKeyPrefix \<noteq> []"
  shows "GetAllVotes s = (Slice (stored_votes s), None)"
proof -
  let ?ks = "Keys s votes_RedisKeyPrefix"
  have ne: "vote_Links \<noteq> []" by (simp add: vote_Links_def)
  define I where "I = (\<lambda>(h :: string heap) (m :: Vote_mem).
      (h = [] \<and> m = zero_Vote_mem) \<or>
      (valid h (Vote_mem.m_Links m) \<and> slice_elems h (Vote_mem.m_Links m) = vote_Links))"
  define E where "E = (\<lambda>(h :: string heap) (h' :: string heap). h = [] \<or> h' = h)"
  define G where "G = (\<lambda>(h :: string heap) (c :: Vote_mem) d.
      h \<noteq> [] \<and> read_Vote h c = unmarshal_Vote d)"
  define D where "D = (\<lambda>key. the (map_of s key))"
  have sv: "stored_votes s = map unmarshal_Vote (map D ?ks)"
    by (simp add: stored_votes_def stored_docs_conv D_def)
  have step: "\<exists>h' m'. votes_getItemFromRedis_into s key (h, m) = Inr (h', m') \<and> I h' m' \<and>
      E h h' \<and> G h' m' (D key) \<and> G h' m' (D key)"
    if k: "key \<in> set ?ks" and i: "I h m" for key h m
  proof -
    from docs_of_keys [OF docs k] obtain w where w: "map_of s key = Some (VoteDoc w)"
      by (metis is_VoteDoc.elims(2))
    have "unmarshal_Vote (D key) \<in> set (stored_votes s)"
      using k by (simp add: sv)
    with links w have lw: "Vote.Links w = vote_Links"
      by (simp add: list_all_iff D_def)
    obtain h' hd where u: "unmarshal_slice [] h (Vote_mem.m_Links m) vote_Links = (h', hd)"
      by (cases "unmarshal_slice [] h (Vote_mem.m_Links m) vote_Links") auto
    have g: "votes_getItemFromRedis_into s key (h, m) =
        Inr (h', \<lparr>m_VoteID = VoteID w, Vote_mem.m_VoterID = Vote.VoterID w,
                Vote_mem.m_PollID = Vote.PollID w, m_VoteValue = VoteValue w,
                Vote_mem.m_Links = hd\<rparr>)"
      by (simp add: votes_getItemFromRedis_into_def JSONGet_def w u lw)
    have v: "valid h (Vote_mem.m_Links m)"
      using i by (auto simp: I_def zero_Vote_mem_def valid_nil)
    note p = unmarshal_slice_props [OF v u]
    have hne: "h' \<noteq> []"
      using p(1,4) ne by (auto simp: valid_def)
    have e: "E h h'"
    proof (cases "h = []")
      case True
      then show ?thesis by (simp add: E_def)
    next
      case False
      with i have "slice_elems h (Vote_mem.m_Links m) = vote_Links"
        by (auto simp: I_def)
      from unmarshal_slice_same [OF v this ne, of "[]"] u show ?thesis
        by (simp add: E_def)
    qed
    have r: "read_Vote h' \<lparr>m_VoteID = VoteID w, Vote_mem.m_VoterID = Vote.VoterID w,
                Vote_mem.m_PollID = Vote.PollID w, m_VoteValue = VoteValue w,
                Vote_mem.m_Links = hd\<rparr> = unmarshal_Vote (D key)"
      using p(3) lw by (simp add: read_Vote_def D_def w)
    show ?thesis
      using g p(1,3) hne e r by (simp add: I_def G_def)
  qed
  have "\<exists>h l. scan_keys (votes_getItemFromRedis_into s) ?ks ([], zero_Vote_mem) Nil_slice = Inr (h, l) \<and>
            list_all2 (G h) (slice_list l) ([] @ map D ?ks) \<and>
            (?ks = [] \<longrightarrow> l = Nil_slice) \<and>
            (?ks \<noteq> [] \<longrightarrow> l \<noteq> Nil_slice \<and> G h (last (slice_list l)) (D (last ?ks)))"
  proof (rule scan_keys_props [where I = I and E = E])
    show "\<exists>h' m'. votes_getItemFromRedis_into s key (h, m) = Inr (h', m') \<and> I h' m' \<and>
      E h h' \<and> G h' m' (D key) \<and> G h' m' (D key)"
      if "key \<in> set ?ks" "I h m" for key h m
      using that by (rule step)
    show "G h' c d" if "G h c d" "E h h'" for h h' c d
      using that by (auto simp: G_def E_def)
    show "I [] zero_Vote_mem" by (simp add: I_def)
    show "list_all2 (G []) (slice_list Nil_slice) []" by simp
  qed
  with keys obtain h l where
    r: "scan_keys (votes_getItemFromRedis_into s) ?ks ([], zero_Vote_mem) Nil_slice = Inr (h, l)"
    and a: "list_all2 (G h) (slice_list l) (map D ?ks)"
    and nn: "l \<noteq> Nil_slice"
    by auto
  have "list_all2 (\<lambda>c d. read_Vote h c = unmarshal_Vote d) (slice_list l) (map D ?ks)"
    using a by (rule list_all2_mono) (simp add: G_def)
  then have m: "map (read_Vote h) (slice_list l) = stored_votes s"
    using list_all2_map_eq [of "read_Vote h" unmarshal_Vote] by (simp add: sv)
  have "slice_list l \<noteq> []" using m keys by (auto simp: sv)
  with r nn m show ?thesis
    by (cases l) (simp_all add: GetAllVotes_def)
qed

text \<open>
  When every stored poll has the fixed list of links, the records of the scan have the
  links of the stored polls.
\<close>

lemma GetAllPolls_fixed_links:
  assumes docs: "list_all is_PollDoc (stored_docs s polls_RedisKeyPrefix)"
    and links: "list_all (\<lambda>p. Poll.Links p = poll_Links) (stored_polls s)"
    and keys: "Keys s polls_RedisKeyPrefix \<noteq> []"
  shows "\<exists>recs. GetAllPolls s = (Slice recs, None) \<and>
           map Poll.Links recs = map Poll.Links (stored_polls s)"
proof -
  let ?ks = "Keys s polls_RedisKeyPrefix"
  have ne: "poll_Links \<noteq> []" by (simp add: poll_Links_def)
  define I where "I = (\<lambda>(h :: pollOption heap \<times> string heap) (m :: Poll_mem).
      valid (fst h) (m_PollOptions m) \<and>
      ((snd h = [] \<and> Poll_mem.m_Links m = nil_header) \<or>
       (valid (snd h) (Poll_mem.m_Links m) \<and>
        slice_elems (snd h) (Poll_mem.m_Links m) = poll_Links)))"
  define E where "E = (\<lambda>(h :: pollOption heap \<times> string heap) (h' :: pollOption heap \<times> string heap).
      snd h = [] \<or> snd h' = snd h)"
  define G where "G = (\<lambda>(h :: pollOption heap \<times> string heap) (c :: Poll_mem) d.
      snd h \<noteq> [] \<and> slice_elems (snd h) (Poll_mem.m_Links c) = Poll.Links (unmarshal_Poll d))"
  define D where "D = (\<lambda>key. the (map_of s key))"
  have sv: "stored_polls s = map unmarshal_Poll (map D ?ks)"
    by (simp add: stored_polls_def stored_docs_conv D_def)
  have step: "\<exists>h' m'. polls_getItemFromRedis_into s key (h, m) = Inr (h', m') \<and> I h' m' \<and>
      E h h' \<and> G h' m' (D key) \<and> G h' m' (D key)"
    if k: "key \<in> set ?ks" and i: "I h m" for key h m
  proof -
    obtain ho hl where h: "h = (ho, hl)" by (cases h)
    from docs_of_keys [OF docs k] obtain p where p: "map_of s key = Some (PollDoc p)"
      by (metis is_PollDoc.elims(2))
    have "unmarshal_Poll (D key) \<in> set (stored_polls s)"
      using k by (simp add: sv)
    with links p have lp: "Poll.Links p = poll_Links"
      by (simp add: list_all_iff D_def)
    obtain ho' opts where
      u1: "unmarshal_slice zero_pollOption ho (m_PollOptions m) (PollOptions p) = (ho', opts)"
      by (cases "unmarshal_slice zero_pollOption ho (m_PollOptions m) (PollOptions p)") auto
    obtain hl' lk where
      u2: "unmarshal_slice [] hl (Poll_mem.m_Links m) poll_Links = (hl', lk)"
      by (cases "unmarshal_slice [] hl (Poll_mem.m_Links m) poll_Links") auto
    have g: "polls_getItemFromRedis_into s key (h, m) =
        Inr ((ho', hl'), \<lparr>Poll_mem.m_PollID = Poll.PollID p, m_PollTitle = PollTitle p,
           m_PollQuestion = PollQuestion p, m_PollOptions = opts, Poll_mem.m_Links = lk\<rparr>)"
      by (simp add: polls_getItemFromRedis_into_def JSONGet_def p h u1 u2 lp)
    from i have v1: "valid ho (m_PollOptions m)" by (simp add: I_def h)
    from i have v2: "valid hl (Poll_mem.m_Links m)"
      by (auto simp: I_def h valid_nil)
    note p1 = unmarshal_slice_props [OF v1 u1]
    note p2 = unmarshal_slice_props [OF v2 u2]
    have hne: "hl' \<noteq> []"
      using p2(1,4) ne by (auto simp: valid_def)
    have e: "hl = [] \<or> hl' = hl"
    proof (cases "hl = []")
      case True
      then show ?thesis by simp
    next
      case False
      with i have "slice_elems hl (Poll_mem.m_Links m) = poll_Links"
        by (auto simp: I_def h)
      from unmarshal_slice_same [OF v2 this ne, of "[]"] u2 show ?thesis
        by simp
    qed
    show ?thesis
      using g p1(1) p2(1,3) hne e lp by (simp add: I_def E_def G_def D_def p h)
  qed
  have "\<exists>h l. scan_keys (polls_getItemFromRedis_into s) ?ks (([], []), zero_Poll_mem) Nil_slice = Inr (h, l) \<and>
            list_all2 (G h) (slice_list l) ([] @ map D ?ks) \<and>
            (?ks = [] \<longrightarrow> l = Nil_slice) \<and>
            (?ks \<noteq> [] \<longrightarrow> l \<noteq> Nil_slice \<and> G h (last (slice_list l)) (D (last ?ks)))"
  proof (rule scan_keys_props [where I = I and E = E])
    show "\<exists>h' m'. polls_getItemFromRedis_into s key (h, m) = Inr (h', m') \<and> I h' m' \<and>
      E h h' \<and> G h' m' (D key) \<and> G h' m' (D key)"
      if "key \<in> set ?ks" "I h m" for key h m
      using that by (rule step)
    show "G h' c d" if "G h c d" "E h h'" for h h' c d
      using that by (auto simp: G_def E_def)
    show "I ([], []) zero_Poll_mem" by (simp add: I_def zero_Poll_mem_def valid_nil)
    show "list_all2 (G ([], [])) (slice_list Nil_slice) []" by simp
  qed
  with keys obtain h l where
    r: "scan_keys (polls_getItemFromRedis_into s) ?ks (([], []), zero_Poll_mem) Nil_slice = Inr (h, l)"
    and a: "list_all2 (G h) (slice_list l) (map D ?ks)"
    and nn: "l \<noteq> Nil_slice"
    by auto
  have "list_all2 (\<lambda>c d. Poll.Links (read_Poll h c) = Poll.Links (unmarshal_Poll d))
      (slice_list l) (map D ?ks)"
    using a by (rule list_all2_mono) (simp add: G_def read_Poll_def)
  then have m: "map Poll.Links (map (read_Poll h) (slice_list l)) = map Poll.Links (stored_polls s)"
    using list_all2_map_eq [of "\<lambda>c. Poll.Links (read_Poll h c)" "\<lambda>d. Poll.Links (unmarshal_Poll d)"]
    by (simp add: sv comp_def)
  have "slice_list l \<noteq> []" using m keys by (auto simp: sv)
  with r nn m show ?thesis
    by (cases l) (simp_all add: GetAllPolls_def)
qed

text \<open>
  C3, as amended.  With no key in its namespace, \<open>GetAllVoters\<close> returns the nil slice and no
  error, and \<open>GetAllPolls\<close> and \<open>GetAllVotes\<close> return one sentinel record, all zero but for
  the fixed list of links.  With keys in the namespace, all of them documents of the
  service, each function returns one record for each key, in the order of the scan and
  with no sentinel; every record has the shape of the stored one (its id, its scalar
  fields, the lengths of its lists), and the last record is the stored one.
  When every stored vote has the fixed list of links, as every vote that \<open>AddVote\<close> or
  \<open>UpdateVote\<close> writes has, \<open>GetAllVotes\<close> returns the stored votes themselves; when every
  stored poll has it, the polls that \<open>GetAllPolls\<close> returns have the links of the stored
  ones.
\<close>

theorem GetAll_results:
  "(Keys s voters_RedisKeyPrefix = [] \<longrightarrow> GetAllVoters s = (Nil_slice, None)) \<and>
   (Keys s polls_RedisKeyPrefix = [] \<longrightarrow>
      GetAllPolls s =
        (Slice [\<lparr>Poll.PollID = 0, PollTitle = [], PollQuestion = [], PollOptions = [],
                 Poll.Links = poll_Links\<rparr>], None)) \<and>
   (Keys s votes_RedisKeyPrefix = [] \<longrightarrow>
      GetAllVotes s =
        (Slice [\<lparr>VoteID = 0, Vote.VoterID = 0, Vote.PollID = 0, VoteValue = 0,
                 Vote.Links = vote_Links\<rparr>], None)) \<and>
   (Keys s voters_RedisKeyPrefix \<noteq> [] \<and>
    list_all is_VoterDoc (stored_docs s voters_RedisKeyPrefix) \<longrightarrow>
      (\<exists>recs. GetAllVoters s = (Slice recs, None) \<and>
         length recs = length (stored_voters s) \<and>
         map voter_shape recs = map voter_shape (stored_voters s) \<and>
         last recs = last (stored_voters s))) \<and>
   (Keys s polls_RedisKeyPrefix \<noteq> [] \<and>
    list_all is_PollDoc (stored_docs s polls_RedisKeyPrefix) \<longrightarrow>
      (\<exists>recs. GetAllPolls s = (Slice recs, None) \<and>
         length recs = length (stored_polls s) \<and>
         map poll_shape recs = map poll_shape (stored_polls s) \<and>
         last recs = last (stored_polls s))) \<and>
   (Keys s votes_RedisKeyPrefix \<noteq> [] \<and>
    list_all is_VoteDoc (stored_docs s votes_RedisKeyPrefix) \<longrightarrow>
      (\<exists>recs. GetAllVotes s = (Slice recs, None) \<and>
         length recs = length (stored_votes s) \<and>
         map vote_shape recs = map vote_shape (stored_votes s) \<and>
         last recs = last (stored_votes s))) \<and>
   (Keys s votes_RedisKeyPrefix \<noteq> [] \<and>
    list_all is_VoteDoc (stored_docs s votes_RedisKeyPrefix) \<and>
    list_all (\<lambda>w. Vote.Links w = vote_Links) (stored_votes s) \<longrightarrow>
      GetAllVotes s = (Slice (stored_votes s), None)) \<and>
   (Keys s polls_RedisKeyPrefix \<noteq> [] \<and>
    list_all is_PollDoc (stored_docs s polls_RedisKeyPrefix) \<and>
    list_all (\<lambda>p. Poll.Links p = poll_Links) (stored_polls s) \<longrightarrow>
      (\<exists>recs. GetAllPolls s = (Slice recs, None) \<and>
         map Poll.Links recs = map Poll.Links (stored_polls s)))"
proof -
  have n5: "\<exists>recs. GetAllPolls s = (Slice recs, None) \<and>
         map Poll.Links recs = map Poll.Links (stored_polls s)"
    if "Keys s polls_RedisKeyPrefix \<noteq> []"
      "list_all is_PollDoc (stored_docs s polls_RedisKeyPrefix)"
      "list_all (\<lambda>p. Poll.Links p = poll_Links) (stored_polls s)"
    using that GetAllPolls_fixed_links by blast
  have n4: "GetAllVotes s = (Slice (stored_votes s), None)"
    if "Keys s votes_RedisKeyPrefix \<noteq> []"
      "list_all is_VoteDoc (stored_docs s votes_RedisKeyPrefix)"
      "list_all (\<lambda>w. Vote.Links w = vote_Links) (stored_votes s)"
    using that GetAllVotes_fixed_links by blast
  have e1: "Keys s voters_RedisKeyPrefix = [] \<longrightarrow> GetAllVoters s = (Nil_slice, None)"
    by (simp add: GetAllVoters_def)
  have e2: "Keys s polls_RedisKeyPrefix = [] \<longrightarrow>
      GetAllPolls s =
        (Slice [\<lparr>Poll.PollID = 0, PollTitle = [], PollQuestion = [], PollOptions = [],
                 Poll.Links = poll_Links\<rparr>], None)"
    by (simp add: GetAllPolls_def)
  have e3: "Keys s votes_RedisKeyPrefix = [] \<longrightarrow>
      GetAllVotes s =
        (Slice [\<lparr>VoteID = 0, Vote.VoterID = 0, Vote.PollID = 0, VoteValue = 0,
                 Vote.Links = vote_Links\<rparr>], None)"
    by (simp add: GetAllVotes_def)
  have n1: "\<exists>recs. GetAllVoters s = (Slice recs, None) \<and>
         length recs = length (stored_voters s) \<and>
         map voter_shape recs = map voter_shape (stored_voters s) \<and>
         last recs = last (stored_voters s)"
    if k: "Keys s voters_RedisKeyPrefix \<noteq> []"
      and d: "list_all is_VoterDoc (stored_docs s voters_RedisKeyPrefix)"
  proof -
    from GetAllVoters_scan [OF d] k obtain h l where
      r: "scan_keys (voters_getItemFromRedis_into s) (Keys s voters_RedisKeyPrefix)
              ([], zero_Voter_mem) Nil_slice = Inr (h, l)"
      and m: "map voter_shape (map (read_Voter h) (slice_list l)) = map voter_shape (stored_voters s)"
      and nn: "l \<noteq> Nil_slice"
      and la: "read_Voter h (last (slice_list l)) = last (stored_voters s)"
      by blast
    have ne: "slice_list l \<noteq> []"
      using m k by (auto simp: stored_voters_def stored_docs_conv)
    have g: "GetAllVoters s = (Slice (map (read_Voter h) (slice_list l)), None)"
      using r nn by (cases l) (simp_all add: GetAllVoters_def)
    have "length (map (read_Voter h) (slice_list l)) = length (stored_voters s)"
      using m by (metis length_map)
    with g m la ne show ?thesis by (simp add: last_map)
  qed
  have n2: "\<exists>recs. GetAllPolls s = (Slice recs, None) \<and>
         length recs = length (stored_polls s) \<and>
         map poll_shape recs = map poll_shape (stored_polls s) \<and>
         last recs = last (stored_polls s)"
    if k: "Keys s polls_RedisKeyPrefix \<noteq> []"
      and d: "list_all is_PollDoc (stored_docs s polls_RedisKeyPrefix)"
  proof -
    from GetAllPolls_scan [OF d] k obtain h l where
      r: "scan_keys (polls_getItemFromRedis_into s) (Keys s polls_RedisKeyPrefix)
              (([], []), zero_Poll_mem) Nil_slice = Inr (h, l)"
      and m: "map poll_shape (map (read_Poll h) (slice_list l)) = map poll_shape (stored_polls s)"
      and nn: "l \<noteq> Nil_slice"
      and la: "read_Poll h (last (slice_list l)) = last (stored_polls s)"
      by blast
    have ne: "slice_list l \<noteq> []"
      using m k by (auto simp: stored_polls_def stored_docs_conv)
    have g: "GetAllPolls s = (Slice (map (read_Poll h) (slice_list l)), None)"
      using r nn ne by (cases l) (simp_all add: GetAllPolls_def)
    have "length (map (read_Poll h) (slice_list l)) = length (stored_polls s)"
      using m by (metis length_map)
    with g m la ne show ?thesis by (simp add: last_map)
  qed
  have n3: "\<exists>recs. GetAllVotes s = (Slice recs, None) \<and>
         length recs = length (stored_votes s) \<and>
         map vote_shape recs = map vote_shape (stored_votes s) \<and>
         last recs = last (stored_votes s)"
    if k: "Keys s votes_RedisKeyPrefix \<noteq> []"
      and d: "list_all is_VoteDoc (stored_docs s votes_RedisKeyPrefix)"
  proof -
    from GetAllVotes_scan [OF d] k obtain h l where
      r: "scan_keys (votes_getItemFromRedis_into s) (Keys s votes_RedisKeyPrefix)
              ([], zero_Vote_mem) Nil_slice = Inr (h, l)"
      and m: "map vote_shape (map (read_Vote h) (slice_list l)) = map vote_shape (stored_votes s)"
      and nn: "l \<noteq> Nil_slice"
      and la: "read_Vote h (last (slice_list l)) = last (stored_votes s)"
      by blast
    have ne: "slice_list l \<noteq> []"
      using m k by (auto simp: stored_votes_def stored_docs_conv)
    have g: "GetAllVotes s = (Slice (map (read_Vote h) (slice_list l)), None)"
      using r nn ne by (cases l) (simp_all add: GetAllVotes_def)
    have "length (map (read_Vote h) (slice_list l)) = length (stored_votes s)"
      using m by (metis length_map)
    with g m la ne show ?thesis by (simp add: last_map)
  qed
  from e1 e2 e3 n1 n2 n3 n4 n5 show ?thesis by blast
qed

theorem GetAll_results_witness:
  "Keys [] voters_RedisKeyPrefix = [] \<and> GetAllVoters [] = (Nil_slice, None) \<and>
   Keys [] polls_RedisKeyPrefix = [] \<and>
   GetAllPolls [] =
     (Slice [\<lparr>Poll.PollID = 0, PollTitle = [], PollQuestion = [], PollOptions = [],
              Poll.Links = poll_Links\<rparr>], None) \<and>
   Keys [] votes_RedisKeyPrefix = [] \<and>
   GetAllVotes [] =
     (Slice [\<lparr>VoteID = 0, Vote.VoterID = 0, Vote.PollID = 0, VoteValue = 0,
              Vote.Links = vote_Links\<rparr>], None) \<and>
   Keys ex_store3 voters_RedisKeyPrefix = [''voters:1''] \<and>
   list_all is_VoterDoc (stored_docs ex_store3 voters_RedisKeyPrefix) \<and>
   GetAllVoters ex_store3 = (Slice [ex_voter], None) \<and>
   Keys ex_store3 polls_RedisKeyPrefix = [''polls:5''] \<and>
   list_all is_PollDoc (stored_docs ex_store3 polls_RedisKeyPrefix) \<and>
   GetAllPolls ex_store3 = (Slice [ex_poll\<lparr>Poll.Links := poll_Links\<rparr>], None) \<and>
   Keys ex_store3 votes_RedisKeyPrefix = [''votes:10''] \<and>
   list_all is_VoteDoc (stored_docs ex_store3 votes_RedisKeyPrefix) \<and>
   GetAllVotes ex_store3 = (Slice [ex_vote\<lparr>Vote.Links := vote_Links\<rparr>], None)"
proof -
  have hyps: "Keys [] voters_RedisKeyPrefix = [] \<and> Keys [] polls_RedisKeyPrefix = [] \<and>
     Keys [] votes_RedisKeyPrefix = [] \<and>
     Keys ex_store3 voters_RedisKeyPrefix = [''voters:1''] \<and>
     list_all is_VoterDoc (stored_docs ex_store3 voters_RedisKeyPrefix) \<and>
     stored_voters ex_store3 = [ex_voter] \<and>
     Keys ex_store3 polls_RedisKeyPrefix = [''polls:5''] \<and>
     list_all is_PollDoc (stored_docs ex_store3 polls_RedisKeyPrefix) \<and>
     list_all (\<lambda>p. Poll.Links p = poll_Links) (stored_polls ex_store3) \<and>
     stored_polls ex_store3 = [ex_poll\<lparr>Poll.Links := poll_Links\<rparr>] \<and>
     Keys ex_store3 votes_RedisKeyPrefix = [''votes:10''] \<and>
     list_all is_VoteDoc (stored_docs ex_store3 votes_RedisKeyPrefix) \<and>
     list_all (\<lambda>w. Vote.Links w = vote_Links) (stored_votes ex_store3) \<and>
     stored_votes ex_store3 = [ex_vote\<lparr>Vote.Links := vote_Links\<rparr>]"
    by code_simp
  from GetAll_results [of "[]"] GetAll_results [of ex_store3] hyps
  show ?thesis by auto
qed

text \<open>
  On the empty store \<open>GetAllVoters\<close> returns nil, not an empty slice.  With two voters
  stored, each with one entry in its history, the first record that \<open>GetAllVoters\<close> returns
  carries the history of the second: both copies read the one cell that the second
  decoding has overwritten.
\<close>

theorem GetAllVoters_nil_and_shared_counterexample:
  "GetAllVoters [] = (Nil_slice, None) \<and>
   stored_voters ex_store2 = [ex_voter, ex_voter3] \<and>
   GetAllVoters ex_store2 =
     (Slice [ex_voter\<lparr>VoteHistory := VoteHistory ex_voter3\<rparr>, ex_voter3], None)"
  by code_simp

section \<open>Deleting a namespace\<close>

text \<open>
  C8.  With no key in the namespace, \<open>DeleteAllVoters\<close>, \<open>DeleteAllPolls\<close> and
  \<open>DeleteAllVotes\<close> send \<open>DEL\<close> without a key, and return the error that Redis answers.
\<close>

theorem DeleteAll_no_keys_is_error:
  "DeleteAllVoters [] =
     ([], Some (redis_ERR ''wrong number of arguments for 'del' command'')) \<and>
   DeleteAllPolls [] =
     ([], Some (redis_ERR ''wrong number of arguments for 'del' command'')) \<and>
   DeleteAllVotes ex_store =
     (ex_store, Some (redis_ERR ''wrong number of arguments for 'del' command''))"
  by (simp add: DeleteAllVoters_def DeleteAllPolls_def DeleteAllVotes_def Keys_def Del_def
        ex_store_def votes_RedisKeyPrefix_def)

text \<open>
  With keys in the namespace, of a store that has each key once, \<open>DEL\<close> removes them all,
  counts them all and leaves the other keys alone.
\<close>

lemma fst_del_keys_Cons: "fst (del_keys s (k # ks)) = fst (del_keys (AList.delete k s) ks)"
  by (simp add: case_prod_unfold Let_def)

lemma snd_del_keys_Cons:
  "snd (del_keys s (k # ks)) =
     (if map_of s k = None then 0 else 1) + snd (del_keys (AList.delete k s) ks)"
  by (simp add: case_prod_unfold Let_def)

lemma del_keys_count:
  "distinct ks \<Longrightarrow> \<forall>k \<in> set ks. map_of s k \<noteq> None \<Longrightarrow> snd (del_keys s ks) = length ks"
proof (induction ks arbitrary: s)
  case Nil
  then show ?case by simp
next
  case (Cons k ks)
  have "\<forall>k' \<in> set ks. map_of (AList.delete k s) k' \<noteq> None"
    using Cons.prems by (auto simp: delete_conv')
  with Cons.IH [of "AList.delete k s"] Cons.prems show ?case
    by (simp add: snd_del_keys_Cons del: del_keys.simps)
qed

lemma distinct_Keys: "distinct (map fst s) \<Longrightarrow> distinct (Keys s pfx)"
  by (simp add: Keys_def)

lemma fst_del_keys: "map fst (fst (del_keys s ks)) = filter (\<lambda>k. k \<notin> set ks) (map fst s)"
proof (induction ks arbitrary: s)
  case Nil
  then show ?case by simp
next
  case (Cons k ks)
  have "map fst (AList.delete k s) = filter (\<lambda>k'. k' \<noteq> k) (map fst s)"
    by (induction s) auto
  with Cons.IH [of "AList.delete k s"] show ?case
    by (auto simp: fst_del_keys_Cons simp del: del_keys.simps intro: filter_cong)
qed

lemma DeleteAll_some_keys:
  assumes "distinct (map fst s)" "Keys s pfx \<noteq> []"
  shows "Del s (Keys s pfx) = (fst (del_keys s (Keys s pfx)), Inr (length (Keys s pfx)))"
    and "Keys (fst (del_keys s (Keys s pfx))) pfx = []"
    and "\<not> prefix pfx k \<Longrightarrow> map_of (fst (del_keys s (Keys s pfx))) k = map_of s k"
proof -
  have "snd (del_keys s (Keys s pfx)) = length (Keys s pfx)"
    using distinct_Keys [OF assms(1)] 
    by (intro del_keys_count) (auto simp: Keys_def map_of_eq_None_iff)
  then show "Del s (Keys s pfx) = (fst (del_keys s (Keys s pfx)), Inr (length (Keys s pfx)))"
    using assms(2) by (simp add: Del_def case_prod_unfold)
  show "Keys (fst (del_keys s (Keys s pfx))) pfx = []"
    by (force simp: Keys_def fst_del_keys filter_empty_conv)
  show "map_of (fst (del_keys s (Keys s pfx))) k = map_of s k" if "\<not> prefix pfx k"
    using that by (simp add: map_of_del_keys Keys_def)
qed

lemma DeleteAllVoters_some_keys:
  assumes "distinct (map fst s)" "Keys s voters_RedisKeyPrefix \<noteq> []"
  shows "snd (DeleteAllVoters s) = None \<and> Keys (fst (DeleteAllVoters s)) voters_RedisKeyPrefix = []"
  using DeleteAll_some_keys [OF assms] by (simp add: DeleteAllVoters_def)

section \<open>Stores that the services build: what holds in them\<close>

text \<open>
  The empty store is built by the services, and every operation keeps a store so.  In
  such a store the document under \<open>voters:<id>\<close> is the voter with that id, the documents
  under the keys of a namespace are documents of its service, and every vote has the fixed
  list of links.
\<close>

lemma built_update: "built s \<Longrightarrow> doc_built k d \<Longrightarrow> built (AList.update k d s)"
  using set_update_subset [of k d s] by (auto simp: built_def list_all_iff)

lemma built_delete: "built s \<Longrightarrow> built (AList.delete k s)"
  by (auto simp: built_def list_all_iff AList.delete_eq)

lemma built_del_keys: "built s \<Longrightarrow> built (fst (del_keys s ks))"
proof (induction ks arbitrary: s)
  case Nil
  then show ?case by simp
next
  case (Cons k ks)
  from Cons.IH [OF built_delete [OF Cons.prems, of k]] show ?case
    by (simp add: fst_del_keys_Cons del: del_keys.simps)
qed

lemma built_lookup: "built s \<Longrightarrow> map_of s k = Some d \<Longrightarrow> doc_built k d"
  by (auto simp: built_def list_all_iff dest!: map_of_SomeD)

lemma built_voter:
  assumes "built s" "map_of s (voters_redisKeyFromId i) = Some d"
  shows "\<exists>v. d = VoterDoc v \<and> Voter.VoterID v = i"
proof (cases d)
  case (VoterDoc v)
  with built_lookup [OF assms] show ?thesis by (auto dest: voters_key_inj)
next
  case (PollDoc p)
  with built_lookup [OF assms] polls_key_not_voters [of "Poll.PollID p" i] show ?thesis
    by simp
next
  case (VoteDoc w)
  with built_lookup [OF assms] votes_key_not_voters [of "VoteID w" i] show ?thesis
    by simp
qed

lemma built_operations:
  "built [] \<and>
   (built s \<longrightarrow>
      built (fst (AddVoter s voter)) \<and> built (fst (UpdateVoter s voter)) \<and>
      built (fst (DeleteVoter s i)) \<and> built (fst (DeleteAllVoters s)) \<and>
      built (fst (DeleteVoterPoll s i j)) \<and>
      (\<forall>s' e. AddVoterPoll s i r = Return (s', e) \<longrightarrow> built s') \<and>
      (\<forall>s' e. UpdateVoterPoll s i r = Return (s', e) \<longrightarrow> built s') \<and>
      built (fst (AddPoll s poll)) \<and> built (fst (UpdatePoll s poll)) \<and>
      built (fst (DeleteAllPolls s)) \<and>
      built (fst (AddVote s vote)) \<and> built (fst (UpdateVote s vote)) \<and>
      built (fst (DeleteAllVotes s)))"
proof -
  have e: "built []" by (simp add: built_def)
  have all: "built (fst (AddVoter s voter)) \<and> built (fst (UpdateVoter s voter)) \<and>
      built (fst (DeleteVoter s i)) \<and> built (fst (DeleteAllVoters s)) \<and>
      built (fst (DeleteVoterPoll s i j)) \<and>
      (\<forall>s' e. AddVoterPoll s i r = Return (s', e) \<longrightarrow> built s') \<and>
      (\<forall>s' e. UpdateVoterPoll s i r = Return (s', e) \<longrightarrow> built s') \<and>
      built (fst (AddPoll s poll)) \<and> built (fst (UpdatePoll s poll)) \<and>
      built (fst (DeleteAllPolls s)) \<and>
      built (fst (AddVote s vote)) \<and> built (fst (UpdateVote s vote)) \<and>
      built (fst (DeleteAllVotes s))"
    if inv: "built s"
  proof -
    have uv: "built (fst (UpdateVoter s v))" for v
      using inv by (simp add: UpdateVoter_conv built_update)
    have dk: "built (fst (Del s ks))" for ks
      using built_del_keys [OF inv, of ks] inv by (simp add: Del_def case_prod_unfold Let_def)
    have 1: "built (fst (AddVoter s voter))"
      using inv by (simp add: AddVoter_conv built_update)
    have 2: "built (fst (DeleteVoter s i))"
      using inv by (simp add: DeleteVoter_conv built_delete)
    have 3: "built (fst (DeleteAllVoters s))"
      using dk [of "Keys s voters_RedisKeyPrefix"]
      by (simp add: DeleteAllVoters_def Let_def case_prod_unfold split: sum.splits)
    have 4: "built (fst (DeleteVoterPoll s i j))"
      using inv uv by (simp add: DeleteVoterPoll_conv split: option.splits)
    have 5: "\<forall>s' e. AddVoterPoll s i r = Return (s', e) \<longrightarrow> built s'"
      using inv uv by (auto simp: AddVoterPoll_conv split: option.splits list.splits if_splits)
    have 6: "\<forall>s' e. UpdateVoterPoll s i r = Return (s', e) \<longrightarrow> built s'"
      using inv uv by (auto simp: UpdateVoterPoll_conv split: option.splits list.splits)
    have 7: "built (fst (AddPoll s poll))"
      using inv by (simp add: AddPoll_conv built_update)
    have 8: "built (fst (UpdatePoll s poll))"
      using inv by (auto simp: UpdatePoll_def Let_def polls_getItem_conv JSONSet_def built_update
            split: option.splits)
    have 9: "built (fst (DeleteAllPolls s))"
      using dk [of "Keys s polls_RedisKeyPrefix"]
      by (simp add: DeleteAllPolls_def Let_def case_prod_unfold split: sum.splits)
    have 10: "built (fst (AddVote s vote))"
      using inv by (simp add: AddVote_conv built_update)
    have 11: "built (fst (UpdateVote s vote))"
      using inv by (auto simp: UpdateVote_def Let_def votes_getItem_conv JSONSet_def built_update
            split: option.splits)
    have 12: "built (fst (DeleteAllVotes s))"
      using dk [of "Keys s votes_RedisKeyPrefix"]
      by (simp add: DeleteAllVotes_def Let_def case_prod_unfold split: sum.splits)
    from uv [of voter] 1 2 3 4 5 6 7 8 9 10 11 12 show ?thesis by (intro conjI)
  qed
  from e all show ?thesis by blast
qed

lemma built_stored_docs:
  assumes "built s"
  shows "list_all is_VoterDoc (stored_docs s voters_RedisKeyPrefix)"
    and "list_all is_PollDoc (stored_docs s polls_RedisKeyPrefix)"
    and "list_all is_VoteDoc (stored_docs s votes_RedisKeyPrefix)"
    and "list_all (\<lambda>w. Vote.Links w = vote_Links) (stored_votes s)"
    and "list_all (\<lambda>p. Poll.Links p = poll_Links) (stored_polls s)"
proof -
  have k: "doc_built k (the (map_of s k))" if "k \<in> set (Keys s pfx)" for k pfx
    using Keys_found [OF that] built_lookup [OF assms, of k] by auto
  have v: "is_VoterDoc d" if "prefix voters_RedisKeyPrefix k" "doc_built k d" for k d
    using that by (cases d) (auto simp: key_defs)
  have "is_VoterDoc (the (map_of s k))" if "k \<in> set (Keys s voters_RedisKeyPrefix)" for k
    using k [OF that] that v [of k "the (map_of s k)"] by (simp add: Keys_def)
  then show "list_all is_VoterDoc (stored_docs s voters_RedisKeyPrefix)"
    by (simp add: stored_docs_conv list_all_iff)
  have p: "is_PollDoc d \<and> Poll.Links (unmarshal_Poll d) = poll_Links"
    if "prefix polls_RedisKeyPrefix k" "doc_built k d" for k d
    using that by (cases d) (auto simp: key_defs)
  have p': "is_PollDoc (the (map_of s k)) \<and> Poll.Links (unmarshal_Poll (the (map_of s k))) = poll_Links"
    if "k \<in> set (Keys s polls_RedisKeyPrefix)" for k
    using k [OF that] that p [of k "the (map_of s k)"] by (simp add: Keys_def)
  then show "list_all is_PollDoc (stored_docs s polls_RedisKeyPrefix)"
    by (simp add: stored_docs_conv list_all_iff)
  show "list_all (\<lambda>p. Poll.Links p = poll_Links) (stored_polls s)"
    using p' by (simp add: stored_polls_def stored_docs_conv list_all_iff)
  have w: "is_VoteDoc d \<and> Vote.Links (unmarshal_Vote d) = vote_Links"
    if "prefix votes_RedisKeyPrefix k" "doc_built k d" for k d
    using that by (cases d) (auto simp: key_defs)
  have w': "is_VoteDoc (the (map_of s k)) \<and> Vote.Links (unmarshal_Vote (the (map_of s k))) = vote_Links"
    if "k \<in> set (Keys s votes_RedisKeyPrefix)" for k
    using k [OF that] that w [of k "the (map_of s k)"] by (simp add: Keys_def)
  then show "list_all is_VoteDoc (stored_docs s votes_RedisKeyPrefix)"
    by (simp add: stored_docs_conv list_all_iff)
  show "list_all (\<lambda>w. Vote.Links w = vote_Links) (stored_votes s)"
    using w' by (simp add: stored_votes_def stored_docs_conv list_all_iff)
qed

section \<open>One key per voter\<close>

text \<open>
  C10.  \<open>AddVoter\<close>, \<open>UpdateVoter\<close> and \<open>DeleteVoter\<close> change nothing under any key other
  than \<open>voters:<id>\<close>; \<open>GetVoter\<close> returns no store and its answer depends on the entry
  under that key alone.  The key of another voter id is another key, and so is every key
  of the polls and votes services.
\<close>

theorem voters_single_key_frame:
  "(\<forall>k. k \<noteq> voters_redisKeyFromId (Voter.VoterID voter) \<longrightarrow>
        map_of (fst (AddVoter s voter)) k = map_of s k \<and>
        map_of (fst (UpdateVoter s voter)) k = map_of s k) \<and>
   (\<forall>k. k \<noteq> voters_redisKeyFromId ident \<longrightarrow>
        map_of (fst (DeleteVoter s ident)) k = map_of s k) \<and>
   (map_of s (voters_redisKeyFromId ident) = map_of t (voters_redisKeyFromId ident) \<longrightarrow>
        GetVoter s ident = GetVoter t ident) \<and>
   (ident' \<noteq> ident \<longrightarrow> voters_redisKeyFromId ident' \<noteq> voters_redisKeyFromId ident) \<and>
   polls_redisKeyFromId j \<noteq> voters_redisKeyFromId ident \<and>
   votes_redisKeyFromId j \<noteq> voters_redisKeyFromId ident"
proof -
  have a: "\<forall>k. k \<noteq> voters_redisKeyFromId (Voter.VoterID voter) \<longrightarrow>
        map_of (fst (AddVoter s voter)) k = map_of s k \<and>
        map_of (fst (UpdateVoter s voter)) k = map_of s k"
    by (simp add: AddVoter_conv UpdateVoter_conv update_conv')
  have b: "\<forall>k. k \<noteq> voters_redisKeyFromId ident \<longrightarrow>
        map_of (fst (DeleteVoter s ident)) k = map_of s k"
    by (simp add: DeleteVoter_conv delete_conv')
  have c: "map_of s (voters_redisKeyFromId ident) = map_of t (voters_redisKeyFromId ident) \<longrightarrow>
        GetVoter s ident = GetVoter t ident"
    by (simp add: GetVoter_conv)
  have d: "ident' \<noteq> ident \<longrightarrow> voters_redisKeyFromId ident' \<noteq> voters_redisKeyFromId ident"
    using voters_key_inj by blast
  show ?thesis using a b c d polls_key_not_voters votes_key_not_voters by blast
qed

theorem voters_single_key_frame_witness:
  "map_of (fst (AddVoter ex_store ex_voter_dup)) ''voters:1'' = map_of ex_store ''voters:1'' \<and>
   map_of (fst (UpdateVoter ex_store ex_voter)) ''polls:5'' = map_of ex_store ''polls:5'' \<and>
   map_of (fst (DeleteVoter ex_store 1)) ''polls:5'' = map_of ex_store ''polls:5'' \<and>
   GetVoter ex_store 1 = GetVoter (fst (AddVoter ex_store ex_voter_dup)) 1 \<and>
   voters_redisKeyFromId 2 \<noteq> voters_redisKeyFromId 1"
  using voters_single_key_frame [of ex_voter_dup ex_store 1 "fst (AddVoter ex_store ex_voter_dup)" 2 5]
    voters_single_key_frame [of ex_voter ex_store 1 ex_store 2 5]
  by (simp add: AddVoter_conv key_defs ex_defs')

end
